theory Spec2Isabelle
  imports Complex_Main "HOL-Library.Char_ord" "HOL-Library.List_Lexorder" "HOL-Library.AList"
    "HOL-Library.Multiset" "HOL-Library.Log_Nat"
begin

section \<open>Exceptions and values\<close>

text \<open>
  The C++ exceptions that the storage core of \<^verbatim>\<open>as.cpp\<close> and the library calls it
  makes raise. The first four carry their \<^verbatim>\<open>what()\<close> text; the text of a
  \<^verbatim>\<open>std::filesystem::filesystem_error\<close> is decided by the implementation, so that one
  carries the name of the call that failed. A function that may throw returns
  \<open>exn + 'a\<close>.
\<close>

datatype exn =
    runtime_error string
  | invalid_argument string
  | out_of_range string
  | length_error string
  | filesystem_error string
  | bad_alloc

text \<open>
  A \<^verbatim>\<open>double\<close> is a binary64 number, an infinity or NaN. \<open>Finite q\<close> is the binary64
  number whose exact value is the rational \<open>q\<close>; \<open>stod\<close> below rounds what it reads to
  binary64, so every price that \<open>parse\<close> produces is such a number. The platform is
  the one \<^verbatim>\<open>as.cpp\<close> is built for: Linux with glibc and libstdc++ on x86-64.
\<close>

datatype double = Finite rat | PosInf | NegInf | NaN

definition isfinite :: "double \<Rightarrow> bool" where
  "isfinite d = (case d of Finite q \<Rightarrow> True | _ \<Rightarrow> False)"

text \<open>The comparison \<^verbatim>\<open>d <= 0\<close>; every comparison with NaN is false.\<close>

definition le_zero :: "double \<Rightarrow> bool" where
  "le_zero d = (case d of Finite q \<Rightarrow> q \<le> 0 | NegInf \<Rightarrow> True | PosInf \<Rightarrow> False | NaN \<Rightarrow> False)"

text \<open>Rounding to the nearest integer, a tie to the even one.\<close>

definition round_half_even :: "rat \<Rightarrow> int" where
  "round_half_even x =
     (let f = \<lfloor>x\<rfloor>; d = x - of_int f
      in if d < 1 / 2 then f else if 1 / 2 < d then f + 1 else if even f then f else f + 1)"

text \<open>
  Rounding a magnitude to binary64, to nearest and a tie to even. For \<open>q > 0\<close>,
  \<open>binary_exponent q\<close> is the \<open>e\<close> with \<open>2 powi e \<le> q < 2 powi (e + 1)\<close>, taken from bit
  lengths. A binary64 number has 53 significant bits, and below the smallest normal
  number \<open>2 powi (- 1022)\<close> the spacing stays that of the subnormal numbers,
  \<open>2 powi (- 1074)\<close>.
\<close>

definition binary_exponent :: "rat \<Rightarrow> int" where
  "binary_exponent q =
     (if 1 \<le> q then bitlen \<lfloor>q\<rfloor> - 1 else - bitlen (\<lceil>1 / q\<rceil> - 1))"

definition round_binary64 :: "rat \<Rightarrow> rat" where
  "round_binary64 q =
     (let e = max (binary_exponent q) (- 1022);
          u = 2 powi (e - 52)
      in of_int (round_half_even (q / u)) * u)"

text \<open>\<^verbatim>\<open>struct CarRecord\<close>; the member \<^verbatim>\<open>id\<close> is named \<open>car_id\<close> here.\<close>

record CarRecord =
  car_id :: string
  model :: string
  condition :: string
  pricePerDay :: double
  status :: string

section \<open>CarRecordValidator\<close>

definition allowed :: "string list" where
  "allowed = [''excellent'', ''good'', ''fair'', ''minordamages'', ''majordamages'']"

definition validate :: "CarRecord \<Rightarrow> bool" where
  "validate record =
     (if car_id record = [] \<or> model record = [] then False
      else if \<not> (condition record \<in> set allowed) then False
      else if \<not> isfinite (pricePerDay record) \<or> le_zero (pricePerDay record) then False
      else True)"

section \<open>The C++ library functions that parser and serializer use\<close>

subsection \<open>\<^verbatim>\<open>std::getline\<close> with a delimiter\<close>

text \<open>
  The stream is the string still to be read. \<open>getline\<close> extracts characters up to the
  delimiter, which it consumes and drops, or up to the end of the input. If it extracts
  nothing at all (the input is exhausted) it fails: that is \<open>None\<close>.
\<close>

fun getline :: "char \<Rightarrow> string \<Rightarrow> (string \<times> string) option" where
  "getline delim [] = None"
| "getline delim (c # cs) =
     (if c = delim then Some ([], cs)
      else case getline delim cs of
             None \<Rightarrow> Some ([c], [])
           | Some (tok, rest) \<Rightarrow> Some (c # tok, rest))"

text \<open>The loop \<^verbatim>\<open>while (std::getline(ss, token, delim)) tokens.push_back(token);\<close>\<close>

function getline_all :: "char \<Rightarrow> string \<Rightarrow> string list" where
  "getline_all delim s =
     (case getline delim s of
        None \<Rightarrow> []
      | Some (tok, rest) \<Rightarrow> tok # getline_all delim rest)"
  by pat_completeness auto
termination
proof (relation "measure (\<lambda>(delim, s). length s)")
  show "wf (measure (\<lambda>(delim, s). length s))"
    by simp
next
  fix delim :: char and s x2 tok rest
  assume "getline delim s = Some x2" and "(tok, rest) = x2"
  then have "getline delim s = Some (tok, rest)"
    by simp
  then have "length rest < length s"
    by (induction s arbitrary: tok rest) (auto split: if_splits option.splits)
  then show "((delim, rest), (delim, s)) \<in> measure (\<lambda>(delim, s). length s)"
    by simp
qed

declare getline_all.simps [simp del]

subsection \<open>\<^verbatim>\<open>std::stod\<close>\<close>

text \<open>
  \<^verbatim>\<open>std::stod\<close> calls \<^verbatim>\<open>strtod\<close> in the C locale: it skips leading white space, reads
  an optional sign and then the longest prefix that is a decimal number (digits with
  an optional point and an optional exponent), a hexadecimal number, \<^verbatim>\<open>inf\<close>,
  \<^verbatim>\<open>infinity\<close> or \<^verbatim>\<open>nan\<close>; whatever follows the prefix is ignored. It throws
  \<^verbatim>\<open>std::invalid_argument\<close> when there is no such prefix and \<^verbatim>\<open>std::out_of_range\<close>
  when \<^verbatim>\<open>strtod\<close> reports a range error.
\<close>

definition isspace :: "char \<Rightarrow> bool" where
  "isspace c = (c = CHR '' '' \<or> (9 \<le> (of_char c :: nat) \<and> (of_char c :: nat) \<le> 13))"

definition isdigit :: "char \<Rightarrow> bool" where
  "isdigit c = (48 \<le> (of_char c :: nat) \<and> (of_char c :: nat) \<le> 57)"

text \<open>
  \<open>lower_eq c l\<close>: the character \<open>c\<close> is the lower-case letter \<open>l\<close> or its capital
  (\<^verbatim>\<open>strtod\<close> ignores case in \<^verbatim>\<open>e\<close>, \<^verbatim>\<open>p\<close>, \<^verbatim>\<open>x\<close>, \<^verbatim>\<open>inf\<close> and \<^verbatim>\<open>nan\<close>).
\<close>

definition lower_eq :: "char \<Rightarrow> char \<Rightarrow> bool" where
  "lower_eq c l = (c = l \<or> (of_char c :: nat) + 32 = of_char l)"

definition isxdigit :: "char \<Rightarrow> bool" where
  "isxdigit c =
     (isdigit c \<or> (97 \<le> (of_char c :: nat) \<and> (of_char c :: nat) \<le> 102)
      \<or> (65 \<le> (of_char c :: nat) \<and> (of_char c :: nat) \<le> 70))"

definition digit_value :: "char \<Rightarrow> nat" where
  "digit_value c =
     (if isdigit c then (of_char c :: nat) - 48
      else if 97 \<le> (of_char c :: nat) then (of_char c :: nat) - 87
      else (of_char c :: nat) - 55)"

definition digits_value :: "nat \<Rightarrow> string \<Rightarrow> nat" where
  "digits_value base ds = foldl (\<lambda>n c. base * n + digit_value c) 0 ds"

definition starts_with_ci :: "string \<Rightarrow> string \<Rightarrow> bool" where
  "starts_with_ci p s = (length p \<le> length s \<and> list_all2 lower_eq (take (length p) s) p)"

text \<open>
  The exponent part after the mantissa: the marker (\<open>e\<close> or \<open>p\<close>, in either case), an
  optional sign and at least one digit. Without a digit there is no exponent part.
\<close>

definition scan_exponent :: "char \<Rightarrow> string \<Rightarrow> int" where
  "scan_exponent marker s =
     (case s of
        [] \<Rightarrow> 0
      | c # r \<Rightarrow>
          if \<not> lower_eq c marker then 0
          else (case r of
                  [] \<Rightarrow> 0
                | d # r' \<Rightarrow>
                    if d = CHR ''-'' then - int (digits_value 10 (takeWhile isdigit r'))
                    else if d = CHR ''+'' then int (digits_value 10 (takeWhile isdigit r'))
                    else int (digits_value 10 (takeWhile isdigit r))))"

text \<open>
  The mantissa: digits of the given base, then optionally a point and more digits.
  Returns the integer and the fraction digits and the rest; at least one digit is needed.
\<close>

definition scan_mantissa :: "(char \<Rightarrow> bool) \<Rightarrow> string \<Rightarrow> (string \<times> string \<times> string) option" where
  "scan_mantissa isdig s =
     (let ip = takeWhile isdig s;
          r1 = dropWhile isdig s;
          fp = (case r1 of [] \<Rightarrow> [] | c # r \<Rightarrow> if c = CHR ''.'' then takeWhile isdig r else []);
          r2 = (case r1 of [] \<Rightarrow> [] | c # r \<Rightarrow> if c = CHR ''.'' then dropWhile isdig r else r1)
      in if ip = [] \<and> fp = [] then None else Some (ip, fp, r2))"

definition scan_decimal :: "string \<Rightarrow> rat option" where
  "scan_decimal s =
     (case scan_mantissa isdigit s of
        None \<Rightarrow> None
      | Some (ip, fp, r) \<Rightarrow>
          Some (of_nat (digits_value 10 (ip @ fp))
                * 10 powi (scan_exponent CHR ''e'' r - int (length fp))))"

text \<open>A hexadecimal number: \<^verbatim>\<open>0x\<close>, hexadecimal digits, a binary exponent after \<^verbatim>\<open>p\<close>.\<close>

definition scan_hex :: "string \<Rightarrow> rat option" where
  "scan_hex s =
     (case s of
        c0 # c1 # r \<Rightarrow>
          if c0 = CHR ''0'' \<and> lower_eq c1 CHR ''x'' then
            (case scan_mantissa isxdigit r of
               None \<Rightarrow> None
             | Some (ip, fp, r') \<Rightarrow>
                 Some (of_nat (digits_value 16 (ip @ fp))
                       * 2 powi (scan_exponent CHR ''p'' r' - 4 * int (length fp))))
          else None
      | _ \<Rightarrow> None)"

text \<open>Leading white space and the sign: whether the sign is minus, and what follows.\<close>

definition skip_sign :: "string \<Rightarrow> bool \<times> string" where
  "skip_sign s =
     (case dropWhile isspace s of
        [] \<Rightarrow> (False, [])
      | c # r \<Rightarrow>
          if c = CHR ''-'' then (True, r)
          else if c = CHR ''+'' then (False, r)
          else (False, c # r))"

text \<open>
  What \<^verbatim>\<open>strtod\<close> finds in the text, before any rounding: a number by its sign and
  the exact magnitude its digits denote, an infinity by its sign, or NaN; \<open>None\<close> when
  there is nothing to convert.
\<close>

datatype scanned = Number bool rat | Infinity bool | NotANumber

definition strtod :: "string \<Rightarrow> scanned option" where
  "strtod s =
     (case skip_sign s of
        (neg, u) \<Rightarrow>
          if starts_with_ci ''inf'' u then Some (Infinity neg)
          else if starts_with_ci ''nan'' u then Some NotANumber
          else (case scan_hex u of
                  Some q \<Rightarrow> Some (Number neg q)
                | None \<Rightarrow>
                    (case scan_decimal u of
                       Some q \<Rightarrow> Some (Number neg q)
                     | None \<Rightarrow> None)))"

text \<open>
  When glibc's \<^verbatim>\<open>strtod\<close> sets \<^verbatim>\<open>ERANGE\<close>, for a magnitude \<open>q\<close>. Overflow: \<open>q\<close> rounds
  beyond the largest binary64 number. Underflow: the result is tiny and inexact, that
  is, \<open>q\<close> is not zero, rounded to 53 bits with the exponent unbounded it is still below
  the smallest normal number \<open>DBL_MIN\<close> (x86-64 detects tininess after rounding), and
  \<open>q\<close> is not itself a multiple of the subnormal spacing. A subnormal number written
  exactly, such as \<^verbatim>\<open>0x1p-1074\<close>, is no range error.
\<close>

definition overflow_threshold :: rat where
  "overflow_threshold = 2 ^ 1024 - 2 ^ 970"

definition DBL_MIN :: rat where
  "DBL_MIN = 1 / 2 ^ 1022"

text \<open>The smallest subnormal number, \<^verbatim>\<open>0x1p-1074\<close>.\<close>

definition DBL_TRUE_MIN :: rat where
  "DBL_TRUE_MIN = 1 / 2 ^ 1074"

definition range_error :: "rat \<Rightarrow> bool" where
  "range_error q =
     (overflow_threshold \<le> q
      \<or> (0 < q \<and> q < DBL_MIN - 1 / 2 ^ 1076 \<and> of_int \<lfloor>q * 2 ^ 1074\<rfloor> \<noteq> q * 2 ^ 1074))"

definition stod :: "string \<Rightarrow> exn + double" where
  "stod s =
     (case strtod s of
        None \<Rightarrow> Inl (invalid_argument ''stod'')
      | Some (Infinity neg) \<Rightarrow> Inr (if neg then NegInf else PosInf)
      | Some NotANumber \<Rightarrow> Inr NaN
      | Some (Number neg q) \<Rightarrow>
          if range_error q then Inl (out_of_range ''stod'')
          else Inr (Finite (if neg then - round_binary64 q else round_binary64 q)))"

subsection \<open>Printing a \<^verbatim>\<open>double\<close> with \<^verbatim>\<open>operator<<\<close>\<close>

text \<open>
  A fresh \<^verbatim>\<open>std::ostringstream\<close> prints a double as \<^verbatim>\<open>printf("%g")\<close> does: six
  significant digits, the exact value of the binary64 number rounded half to even;
  scientific notation when the decimal exponent \<open>X\<close> of the rounded value is below
  \<open>-4\<close> or at least \<open>6\<close>; trailing zeros of the fraction, and a point left bare, are
  removed.
\<close>

definition digit_char :: "nat \<Rightarrow> char" where
  "digit_char d = ''0123456789'' ! d"

fun show_nat :: "nat \<Rightarrow> string" where
  "show_nat n =
     (if n < 10 then [digit_char n]
      else show_nat (n div 10) @ [digit_char (n mod 10)])"

declare show_nat.simps [simp del]

text \<open>
  For \<open>q > 0\<close>, the \<open>X\<close> with \<open>10 powi X \<le> q < 10 powi (X + 1)\<close>, from digit counts
  (\<open>floorlog 10 n\<close> is the number of decimal digits of \<open>n\<close>).
\<close>

definition decimal_exponent :: "rat \<Rightarrow> int" where
  "decimal_exponent q =
     (if 1 \<le> q then int (floorlog 10 (nat \<lfloor>q\<rfloor>)) - 1
      else - int (floorlog 10 (nat \<lceil>1 / q\<rceil> - 1)))"

definition strip_zeros :: "string \<Rightarrow> string" where
  "strip_zeros ds = rev (dropWhile (\<lambda>c. c = CHR ''0'') (rev ds))"

text \<open>
  The text for the six digits of the mantissa \<open>m\<close> (from 100000 to 999999) and the
  decimal exponent \<open>X\<close> of its first digit.
\<close>

definition format_g :: "nat \<Rightarrow> int \<Rightarrow> string" where
  "format_g m X =
     (let ds = show_nat m
      in if X < - 4 \<or> 6 \<le> X then
           (let fr = strip_zeros (drop 1 ds);
                ex = show_nat (nat \<bar>X\<bar>)
            in take 1 ds @ (if fr = [] then [] else CHR ''.'' # fr)
               @ [CHR ''e'', if X < 0 then CHR ''-'' else CHR ''+'']
               @ (if length ex < 2 then CHR ''0'' # ex else ex))
         else if 0 \<le> X then
           (let fr = strip_zeros (drop (nat X + 1) ds)
            in take (nat X + 1) ds @ (if fr = [] then [] else CHR ''.'' # fr))
         else ''0.'' @ replicate (nat (- X - 1)) CHR ''0'' @ strip_zeros ds)"

definition show_positive :: "rat \<Rightarrow> string" where
  "show_positive q =
     (let X0 = decimal_exponent q;
          m0 = round_half_even (q * 10 powi (5 - X0))
      in if m0 = 1000000 then format_g 100000 (X0 + 1) else format_g (nat m0) X0)"

definition show_double :: "double \<Rightarrow> string" where
  "show_double d =
     (case d of
        Finite q \<Rightarrow>
          if q = 0 then ''0''
          else if q < 0 then CHR ''-'' # show_positive (- q)
          else show_positive q
      | PosInf \<Rightarrow> ''inf''
      | NegInf \<Rightarrow> ''-inf''
      | NaN \<Rightarrow> ''nan'')"

section \<open>CarRecordParser\<close>

text \<open>
  \<^verbatim>\<open>parse\<close> returns no record for an empty line (\<open>Inr None\<close>), throws for a line
  of fewer than four tokens, for a price that \<open>stod\<close> rejects and for a record that the
  validator rejects, and returns the record otherwise. The branches follow the source,
  the unreachable ones included.
\<close>

definition parse :: "string \<Rightarrow> exn + CarRecord option" where
  "parse line =
     (if line = [] then Inr None
      else
        let tokens = getline_all CHR '','' line in
        if length tokens < 4 then Inl (runtime_error (''Malformed car record: '' @ line))
        else if length tokens \<ge> 4 then
          (case stod (if length tokens > 4 then tokens ! 3 else tokens ! 2) of
             Inl e \<Rightarrow> Inl e
           | Inr price \<Rightarrow>
               let record = \<lparr> car_id = tokens ! 0,
                              model = (if length tokens > 4 then tokens ! 1 else tokens ! 0),
                              condition = (if length tokens > 4 then tokens ! 2 else tokens ! 1),
                              pricePerDay = price,
                              status = (if length tokens > 4 then tokens ! 4
                                        else if length tokens > 3 then tokens ! 3
                                        else ''Available'') \<rparr>
               in if \<not> validate record
                  then Inl (runtime_error (''Validation failed for line: '' @ line))
                  else Inr (Some record))
        else Inl (runtime_error (''Malformed car record: '' @ line)))"

text \<open>\<^verbatim>\<open>serialize\<close> validates first, then joins the five fields with commas.\<close>

definition serialize :: "CarRecord \<Rightarrow> exn + string" where
  "serialize record =
     (if \<not> validate record
      then Inl (runtime_error (''Attempted to serialize invalid record: '' @ car_id record))
      else Inr (car_id record @ '','' @ model record @ '','' @ condition record @ '',''
                @ show_double (pricePerDay record) @ '','' @ status record))"

section \<open>TransactionalFileWriter\<close>

text \<open>
  The file system maps a path to what is there: a regular file with its content, a
  regular file that this process may not open (\<open>Unreadable\<close>), or a directory, which
  is empty (\<open>Directory False\<close>) or has entries (\<open>Directory True\<close>). Paths are plain
  strings, so the directory that holds a path is not a node of its own.

  Whatever else makes a call of the file-system library fail (the rights on the
  directory that holds the path, a parent that cannot be created, a full device) is
  the environment's: \<open>faults\<close> says of each such call whether the environment refuses
  it. A refused call fails as the library specifies, an opening by leaving the stream
  closed and the others by throwing \<^verbatim>\<open>filesystem_error\<close>.
\<close>

datatype node = File string | Unreadable | Directory bool

type_synonym filesystem = "string \<Rightarrow> node option"

datatype fs_call =
    CreateDirectories string
  | OpenOut string
  | Remove string
  | Rename string string

type_synonym faults = "fs_call \<Rightarrow> bool"

definition no_faults :: faults where
  "no_faults call = False"

definition is_directory :: "node option \<Rightarrow> bool" where
  "is_directory n = (case n of Some (Directory entries) \<Rightarrow> True | _ \<Rightarrow> False)"

text \<open>
  \<^verbatim>\<open>write\<close> (here \<open>writer_write\<close>) is a sequence of four steps.
  \<open>OpenTmp\<close>: resolve the target, create its parent directories, open the temporary
  file for writing and truncate it; the opening fails on a directory and on a file
  that may not be opened. \<open>WriteLines\<close>: write the lines, flush and close; the stream
  throws nothing. \<open>RemoveTarget\<close>: \<^verbatim>\<open>if (fs::exists(target)) fs::remove(target)\<close>, which
  removes a file or an empty directory and throws on a directory with entries.
  \<open>RenameTmp\<close>: \<^verbatim>\<open>fs::rename(tmpPath, target)\<close>, which replaces a file by a file and an
  empty directory by a directory, and throws when the source is missing or the two
  kinds do not agree.
\<close>

datatype write_step = OpenTmp | WriteLines | RemoveTarget | RenameTmp

definition tmpPath :: "string \<Rightarrow> string" where
  "tmpPath target = target @ ''.tmp''"

definition file_text :: "string list \<Rightarrow> string" where
  "file_text lines = concat (map (\<lambda>line. line @ [CHR 0x0A]) lines)"

fun do_step :: "faults \<Rightarrow> string \<Rightarrow> string list \<Rightarrow> write_step \<Rightarrow> filesystem \<Rightarrow> exn + filesystem" where
  "do_step refused target lines OpenTmp disk =
     (if refused (CreateDirectories target) then Inl (filesystem_error ''create_directories'')
      else if refused (OpenOut (tmpPath target)) \<or> disk (tmpPath target) = Some Unreadable
              \<or> is_directory (disk (tmpPath target))
      then Inl (runtime_error ''Unable to open temporary file for transactional write'')
      else Inr (disk (tmpPath target \<mapsto> File [])))"
| "do_step refused target lines WriteLines disk =
     Inr (disk (tmpPath target \<mapsto> File (file_text lines)))"
| "do_step refused target lines RemoveTarget disk =
     (case disk target of
        None \<Rightarrow> Inr disk
      | Some n \<Rightarrow>
          if refused (Remove target) \<or> n = Directory True
          then Inl (filesystem_error ''remove'')
          else Inr (disk (target := None)))"
| "do_step refused target lines RenameTmp disk =
     (case disk (tmpPath target) of
        None \<Rightarrow> Inl (filesystem_error ''rename'')
      | Some n \<Rightarrow>
          if refused (Rename (tmpPath target) target)
             \<or> (is_directory (Some n) \<and> disk target \<noteq> None \<and> disk target \<noteq> Some (Directory False))
             \<or> (\<not> is_directory (Some n) \<and> is_directory (disk target))
          then Inl (filesystem_error ''rename'')
          else Inr (disk (target := Some n, tmpPath target := None)))"

fun run_steps ::
  "faults \<Rightarrow> string \<Rightarrow> string list \<Rightarrow> write_step list \<Rightarrow> filesystem \<Rightarrow> exn + filesystem" where
  "run_steps refused target lines [] disk = Inr disk"
| "run_steps refused target lines (step # steps) disk =
     (case do_step refused target lines step disk of
        Inl e \<Rightarrow> Inl e
      | Inr disk' \<Rightarrow> run_steps refused target lines steps disk')"

definition write_steps :: "write_step list" where
  "write_steps = [OpenTmp, WriteLines, RemoveTarget, RenameTmp]"

definition writer_write :: "faults \<Rightarrow> string \<Rightarrow> string list \<Rightarrow> filesystem \<Rightarrow> exn + filesystem" where
  "writer_write refused target lines disk = run_steps refused target lines write_steps disk"

text \<open>A run of \<^verbatim>\<open>write\<close> that is cut off when \<open>n\<close> of its steps have completed.\<close>

definition write_interrupted ::
  "faults \<Rightarrow> nat \<Rightarrow> string \<Rightarrow> string list \<Rightarrow> filesystem \<Rightarrow> exn + filesystem" where
  "write_interrupted refused n target lines disk =
     run_steps refused target lines (take n write_steps) disk"

section \<open>CarFilePipeline\<close>

text \<open>
  \<^verbatim>\<open>stream\<close> returns at once when nothing exists at the path and throws when the
  file cannot be opened. A directory can be opened for reading, but every read from it
  fails, so the loop ends before its first line: no record and no exception. A file is
  read as it is when opened; the consumer receives each parsed record and the state it
  may change. The \<^verbatim>\<open>try\<close> block encloses the call of the consumer as well as
  \<^verbatim>\<open>parse\<close>, so an exception of either is caught and dropped (the warning written to
  \<^verbatim>\<open>std::cerr\<close> is not modelled); what the consumer changed before it threw stays
  changed.
\<close>

fun stream_lines :: "(CarRecord \<Rightarrow> 's \<Rightarrow> exn option \<times> 's) \<Rightarrow> string list \<Rightarrow> 's \<Rightarrow> 's" where
  "stream_lines consumer [] s = s"
| "stream_lines consumer (line # rest) s =
     (case parse line of
        Inl ex \<Rightarrow> stream_lines consumer rest s
      | Inr None \<Rightarrow> stream_lines consumer rest s
      | Inr (Some record) \<Rightarrow> stream_lines consumer rest (snd (consumer record s)))"

definition stream ::
  "filesystem \<Rightarrow> string \<Rightarrow> (CarRecord \<Rightarrow> 's \<Rightarrow> exn option \<times> 's) \<Rightarrow> 's \<Rightarrow> exn option \<times> 's" where
  "stream disk path consumer s =
     (case disk path of
        None \<Rightarrow> (None, s)
      | Some Unreadable \<Rightarrow> (Some (runtime_error (''Unable to open '' @ path)), s)
      | Some (Directory entries) \<Rightarrow> (None, s)
      | Some (File content) \<Rightarrow>
          (None, stream_lines consumer (getline_all (CHR 0x0A) content) s))"

definition readAll :: "filesystem \<Rightarrow> string \<Rightarrow> exn + CarRecord list" where
  "readAll disk path =
     (case stream disk path (\<lambda>record records. (None, records @ [record])) [] of
        (Some e, records) \<Rightarrow> Inl e
      | (None, records) \<Rightarrow> Inr records)"

fun serialize_all :: "CarRecord list \<Rightarrow> exn + string list" where
  "serialize_all [] = Inr []"
| "serialize_all (record # rest) =
     (case serialize record of
        Inl e \<Rightarrow> Inl e
      | Inr line \<Rightarrow> (case serialize_all rest of Inl e \<Rightarrow> Inl e | Inr lines \<Rightarrow> Inr (line # lines)))"

definition writeAll :: "faults \<Rightarrow> string \<Rightarrow> CarRecord list \<Rightarrow> filesystem \<Rightarrow> exn + filesystem" where
  "writeAll refused path records disk =
     (case serialize_all records of
        Inl e \<Rightarrow> Inl e
      | Inr lines \<Rightarrow> writer_write refused path lines disk)"

section \<open>StorageBackend\<close>

datatype StorageBackend = FileStorageBackend string | MemoryStorageBackend "CarRecord list"

fun loadCars :: "StorageBackend \<Rightarrow> filesystem \<Rightarrow> exn + CarRecord list" where
  "loadCars (FileStorageBackend path) disk = readAll disk path"
| "loadCars (MemoryStorageBackend seed) disk = Inr seed"

fun persistCars ::
  "StorageBackend \<Rightarrow> CarRecord list \<Rightarrow> faults \<Rightarrow> filesystem \<Rightarrow> exn + StorageBackend \<times> filesystem" where
  "persistCars (FileStorageBackend path) records refused disk =
     (case writeAll refused path records disk of
        Inl e \<Rightarrow> Inl e
      | Inr disk' \<Rightarrow> Inr (FileStorageBackend path, disk'))"
| "persistCars (MemoryStorageBackend old) records refused disk =
     Inr (MemoryStorageBackend records, disk)"

section \<open>CarRepository\<close>

text \<open>
  The \<^verbatim>\<open>std::unordered_map\<close> is an association list with \<open>AList.update\<close> for
  \<^verbatim>\<open>records_[key] = value\<close>. The members \<^verbatim>\<open>backend_\<close>, \<^verbatim>\<open>records_\<close> and \<^verbatim>\<open>dirty_\<close> lose
  their underscore. \<^verbatim>\<open>find\<close> is \<open>find_car\<close> here.

  The state of the program is the \<open>world\<close>: the repository, the disk its backend may
  write, and the log of the \<^verbatim>\<open>persistCars\<close> calls made so far (the snapshot each was
  given). With it go what the platform fixes: the calls the environment refuses, the
  \<^verbatim>\<open>max_size()\<close> of a \<^verbatim>\<open>std::vector<CarRecord>\<close>, and the number of records for
  which the free store has room (\<open>free_store\<close>).
\<close>

record CarRepository =
  backend :: StorageBackend
  records :: "(string \<times> CarRecord) list"
  dirty :: bool

record world =
  disk :: filesystem
  repo :: CarRepository
  persist_log :: "CarRecord list list"
  refusals :: faults
  max_size :: nat
  free_store :: nat

definition insert_all :: "CarRecord list \<Rightarrow> (string \<times> CarRecord) list \<Rightarrow> (string \<times> CarRecord) list" where
  "insert_all rs m = foldl (\<lambda>m record. AList.update (car_id record) record m) m rs"

text \<open>\<^verbatim>\<open>reload\<close> clears the cache before it loads, so a failed load leaves it empty.\<close>

definition reload :: "filesystem \<Rightarrow> CarRepository \<Rightarrow> exn option \<times> CarRepository" where
  "reload d r =
     (case loadCars (backend r) d of
        Inl e \<Rightarrow> (Some e, r\<lparr>records := []\<rparr>)
      | Inr loaded \<Rightarrow> (None, r\<lparr>records := insert_all loaded [], dirty := False\<rparr>))"

text \<open>The constructor: \<^verbatim>\<open>dirty_{false}\<close>, an empty map, then \<^verbatim>\<open>reload()\<close>.\<close>

definition new_repository :: "StorageBackend \<Rightarrow> filesystem \<Rightarrow> exn + CarRepository" where
  "new_repository b d =
     (case reload d \<lparr>backend = b, records = [], dirty = False\<rparr> of
        (Some e, r) \<Rightarrow> Inl e
      | (None, r) \<Rightarrow> Inr r)"

definition all_records :: "CarRepository \<Rightarrow> CarRecord list" where
  "all_records r = sort_key car_id (map snd (records r))"

definition available :: "CarRepository \<Rightarrow> CarRecord list" where
  "available r = sort_key car_id (filter (\<lambda>c. status c = ''Available'') (map snd (records r)))"

definition find_car :: "string \<Rightarrow> CarRepository \<Rightarrow> CarRecord option" where
  "find_car k r = map_of (records r) k"

definition upsert :: "CarRecord \<Rightarrow> CarRepository \<Rightarrow> CarRepository" where
  "upsert record r = r\<lparr>records := AList.update (car_id record) record (records r), dirty := True\<rparr>"

definition bulkUpsert :: "CarRecord list \<Rightarrow> CarRepository \<Rightarrow> CarRepository" where
  "bulkUpsert rs r = r\<lparr>records := insert_all rs (records r), dirty := (dirty r \<or> rs \<noteq> [])\<rparr>"

definition totalRecords :: "CarRepository \<Rightarrow> nat" where
  "totalRecords r = length (records r)"

definition pendingChanges :: "CarRepository \<Rightarrow> bool" where
  "pendingChanges r = dirty r"

definition flush :: "world \<Rightarrow> exn option \<times> world" where
  "flush w =
     (if \<not> dirty (repo w) then (None, w)
      else
        let snapshot = all_records (repo w);
            w1 = w\<lparr>persist_log := persist_log w @ [snapshot]\<rparr>
        in case persistCars (backend (repo w)) snapshot (refusals w) (disk w) of
             Inl e \<Rightarrow> (Some e, w1)
           | Inr (b, d) \<Rightarrow> (None, w1\<lparr>disk := d, repo := (repo w)\<lparr>backend := b, dirty := False\<rparr>\<rparr>))"

section \<open>BatchProcessor\<close>

text \<open>The \<^verbatim>\<open>duration\<close> member of the metrics is wall-clock time and is left out.\<close>

record BatchMetrics =
  processedRecords :: nat
  batches :: nat

record ingest_state =
  sys :: world
  buffer :: "CarRecord list"
  metrics :: BatchMetrics

text \<open>
  The four statements \<^verbatim>\<open>bulkUpsert(buffer); flush(); buffer.clear(); ++metrics.batches;\<close>
  when \<^verbatim>\<open>flush\<close> throws, the last two are not reached.
\<close>

definition flush_chunk :: "ingest_state \<Rightarrow> exn option \<times> ingest_state" where
  "flush_chunk s =
     (case flush ((sys s)\<lparr>repo := bulkUpsert (buffer s) (repo (sys s))\<rparr>) of
        (Some e, w) \<Rightarrow> (Some e, s\<lparr>sys := w\<rparr>)
      | (None, w) \<Rightarrow>
          (None, s\<lparr>sys := w, buffer := [],
                   metrics := (metrics s)\<lparr>batches := batches (metrics s) + 1\<rparr>\<rparr>))"

text \<open>The lambda that \<^verbatim>\<open>ingest\<close> passes to \<^verbatim>\<open>stream\<close>.\<close>

definition consumer :: "nat \<Rightarrow> CarRecord \<Rightarrow> ingest_state \<Rightarrow> exn option \<times> ingest_state" where
  "consumer chunkSize record s =
     (let s1 = s\<lparr>buffer := buffer s @ [record],
                  metrics := (metrics s)\<lparr>processedRecords := processedRecords (metrics s) + 1\<rparr>\<rparr>
      in if length (buffer s1) \<ge> chunkSize then flush_chunk s1 else (None, s1))"



section \<open>Notions of the specification\<close>

text \<open>
  Splitting on a delimiter as the specification's words have it: \<open>n\<close> delimiters
  separate \<open>n + 1\<close> fields, and an empty field is a field.
\<close>

fun split_on :: "char \<Rightarrow> string \<Rightarrow> string list" where
  "split_on d [] = [[]]"
| "split_on d (c # cs) =
     (if c = d then [] # split_on d cs
      else (case split_on d cs of [] \<Rightarrow> [[c]] | f # fs \<Rightarrow> (c # f) # fs))"

text \<open>What \<^verbatim>\<open>getline\<close> makes of it: a final empty field is not delivered.\<close>

definition drop_last_empty :: "string list \<Rightarrow> string list" where
  "drop_last_empty fs = (if fs \<noteq> [] \<and> last fs = [] then butlast fs else fs)"

text \<open>The specification's names for the exceptions of \<open>parse\<close>.\<close>

definition MalformedRecord :: "string \<Rightarrow> exn" where
  "MalformedRecord line = runtime_error (''Malformed car record: '' @ line)"

definition ValidationFailed :: "string \<Rightarrow> exn" where
  "ValidationFailed line = runtime_error (''Validation failed for line: '' @ line)"

text \<open>
  The record made of five field texts: the price is read by \<open>stod\<close>, then the
  validator decides. \<open>line\<close> is only quoted in the error.
\<close>

definition assemble ::
  "string \<Rightarrow> string \<Rightarrow> string \<Rightarrow> string \<Rightarrow> string \<Rightarrow> string \<Rightarrow> exn + CarRecord option" where
  "assemble line i m c p s =
     (case stod p of
        Inl e \<Rightarrow> Inl e
      | Inr price \<Rightarrow>
          if validate \<lparr>car_id = i, model = m, condition = c, pricePerDay = price, status = s\<rparr>
          then Inr (Some \<lparr>car_id = i, model = m, condition = c, pricePerDay = price, status = s\<rparr>)
          else Inl (ValidationFailed line))"

text \<open>The field of the token list that \<open>parse\<close> reads the price from.\<close>

definition price_field :: "string list \<Rightarrow> string" where
  "price_field toks = (if length toks > 4 then toks ! 3 else toks ! 2)"

text \<open>
  A decimal number in the usual sense, the whole text: an optional sign, digits with
  an optional point, an optional exponent, and nothing after it.
\<close>

definition is_decimal_number :: "string \<Rightarrow> bool" where
  "is_decimal_number s =
     (let u = (case s of [] \<Rightarrow> [] | c # r \<Rightarrow> if c = CHR ''-'' \<or> c = CHR ''+'' then r else s)
      in case scan_mantissa isdigit u of
           None \<Rightarrow> False
         | Some (ip, fp, r) \<Rightarrow>
             (case r of
                [] \<Rightarrow> True
              | c # r' \<Rightarrow>
                  lower_eq c CHR ''e'' \<and>
                  (let ds = (case r' of [] \<Rightarrow> []
                             | d # r'' \<Rightarrow> if d = CHR ''-'' \<or> d = CHR ''+'' then r'' else r')
                   in ds \<noteq> [] \<and> list_all isdigit ds)))"

text \<open>
  Text in which \<^verbatim>\<open>strtod\<close> finds nothing to convert: after white space and a sign
  comes neither a digit, nor a point with a digit, nor \<^verbatim>\<open>inf\<close> or \<^verbatim>\<open>nan\<close>.
\<close>

definition no_numeric_prefix :: "string \<Rightarrow> bool" where
  "no_numeric_prefix s =
     (case snd (skip_sign s) of
        [] \<Rightarrow> True
      | c # r \<Rightarrow>
          \<not> starts_with_ci ''inf'' (c # r) \<and> \<not> starts_with_ci ''nan'' (c # r) \<and> \<not> isdigit c \<and>
          \<not> (c = CHR ''.'' \<and> (case r of [] \<Rightarrow> False | c' # r' \<Rightarrow> isdigit c')))"

text \<open>
  A call of one of the two writing operations of the repository, a sequence of such
  calls, the records it writes in order, and the last record of a list with a given id.
\<close>

datatype repo_call = Upsert CarRecord | BulkUpsert "CarRecord list"

fun apply_call :: "repo_call \<Rightarrow> CarRepository \<Rightarrow> CarRepository" where
  "apply_call (Upsert c) r = upsert c r"
| "apply_call (BulkUpsert rs) r = bulkUpsert rs r"

definition apply_calls :: "repo_call list \<Rightarrow> CarRepository \<Rightarrow> CarRepository" where
  "apply_calls calls r = foldl (\<lambda>r call. apply_call call r) r calls"

fun written :: "repo_call list \<Rightarrow> CarRecord list" where
  "written [] = []"
| "written (Upsert c # calls) = c # written calls"
| "written (BulkUpsert rs # calls) = rs @ written calls"

definition last_with_id :: "string \<Rightarrow> CarRecord list \<Rightarrow> CarRecord option" where
  "last_with_id k rs =
     (if filter (\<lambda>r. car_id r = k) rs = [] then None
      else Some (last (filter (\<lambda>r. car_id r = k) rs)))"

text \<open>The keys of the map are distinct, and each record is stored under its own id.\<close>

definition keyed :: "(string \<times> CarRecord) list \<Rightarrow> bool" where
  "keyed m = (distinct (map fst m) \<and> (\<forall>(k, v) \<in> set m. car_id v = k))"












section \<open>Facts about the library functions\<close>

subsection \<open>Tokens\<close>

lemma getline_field: "d \<notin> set a \<Longrightarrow> getline d (a @ d # rest) = Some (a, rest)"
  by (induction a) auto

lemma getline_last: "d \<notin> set a \<Longrightarrow> a \<noteq> [] \<Longrightarrow> getline d a = Some (a, [])"
proof (induction a)
  case Nil
  then show ?case by simp
next
  case (Cons c cs)
  then show ?case by (cases cs) auto
qed

lemma getline_all_Nil: "getline_all d [] = []"
  by (simp add: getline_all.simps)

lemma getline_all_field: "d \<notin> set a \<Longrightarrow> getline_all d (a @ d # rest) = a # getline_all d rest"
  by (subst getline_all.simps) (simp add: getline_field)

lemma getline_all_last: "d \<notin> set a \<Longrightarrow> a \<noteq> [] \<Longrightarrow> getline_all d a = [a]"
  by (subst getline_all.simps) (simp add: getline_last getline_all_Nil)

lemma getline_all_Cons:
  "getline_all d (c # cs) =
     (if c = d then [] # getline_all d cs
      else if cs = [] then [[c]]
      else (c # hd (getline_all d cs)) # tl (getline_all d cs))"
proof (cases "c = d")
  case True
  then show ?thesis by (subst getline_all.simps) simp
next
  case False
  show ?thesis
  proof (cases cs)
    case Nil
    with False show ?thesis by (subst getline_all.simps) (simp add: getline_all_Nil)
  next
    case (Cons x xs)
    then obtain tok rest where g: "getline d cs = Some (tok, rest)"
      by (cases "getline d cs") (auto split: if_splits option.splits)
    then have "getline_all d cs = tok # getline_all d rest"
      by (subst getline_all.simps) simp
    moreover have "getline_all d (c # cs) = (c # tok) # getline_all d rest"
      using False g by (subst getline_all.simps) simp
    ultimately show ?thesis using False Cons by simp
  qed
qed

lemma split_on_not_Nil: "split_on d s \<noteq> []"
  by (induction s) (auto split: list.splits)

lemma split_on_single_empty: "split_on d s = [[]] \<longleftrightarrow> s = []"
  by (cases s) (auto split: list.splits simp: split_on_not_Nil)

lemma getline_all_split_on: "getline_all d s = drop_last_empty (split_on d s)"
proof (induction s)
  case Nil
  then show ?case by (simp add: getline_all_Nil drop_last_empty_def)
next
  case (Cons c cs)
  obtain f fs where X: "split_on d cs = f # fs"
    using split_on_not_Nil [of d cs] by (cases "split_on d cs") auto
  show ?case
  proof (cases "c = d")
    case True
    with Cons X show ?thesis
      by (simp add: getline_all_Cons drop_last_empty_def)
  next
    case False
    show ?thesis
    proof (cases "cs = []")
      case True
      with False show ?thesis by (simp add: getline_all_Cons drop_last_empty_def)
    next
      case nonempty: False
      then have "f # fs \<noteq> [[]]"
        using X split_on_single_empty [of d cs] by simp
      with False nonempty Cons X show ?thesis
        by (auto simp add: getline_all_Cons drop_last_empty_def split: if_splits)
    qed
  qed
qed

lemma parse_by_tokens:
  "line \<noteq> [] \<Longrightarrow>
   parse line =
     (let toks = getline_all CHR '','' line
      in if length toks < 4 then Inl (MalformedRecord line)
         else if length toks = 4
         then assemble line (toks ! 0) (toks ! 0) (toks ! 1) (toks ! 2) (toks ! 3)
         else assemble line (toks ! 0) (toks ! 1) (toks ! 2) (toks ! 3) (toks ! 4))"
  by (auto simp add: parse_def assemble_def MalformedRecord_def ValidationFailed_def Let_def
      split: sum.splits)


lemma getline_all_unfold:
  "getline_all d (c # cs) =
     (case getline d (c # cs) of None \<Rightarrow> [] | Some (tok, rest) \<Rightarrow> tok # getline_all d rest)"
  by (rule getline_all.simps)

lemmas tokens_eval = getline_all_unfold getline_all_Nil

lemma split_on_field: "d \<notin> set a \<Longrightarrow> split_on d (a @ d # rest) = a # split_on d rest"
  by (induction a) (auto split: list.splits)

subsection \<open>Text that \<open>stod\<close> rejects, and text that it reads\<close>

lemma scan_decimal_no_prefix:
  assumes "\<not> isdigit c"
    and "\<not> (c = CHR ''.'' \<and> (case r of [] \<Rightarrow> False | c' # r' \<Rightarrow> isdigit c'))"
  shows "scan_decimal (c # r) = None"
proof (cases "c = CHR ''.''")
  case True
  with assms(2) have "takeWhile isdigit r = []"
    by (cases r) auto
  with assms(1) True show ?thesis
    by (simp add: scan_decimal_def scan_mantissa_def)
next
  case False
  with assms(1) show ?thesis
    by (simp add: scan_decimal_def scan_mantissa_def)
qed

lemma scan_hex_no_prefix: "\<not> isdigit c \<Longrightarrow> scan_hex (c # r) = None"
  by (auto simp add: scan_hex_def isdigit_def split: list.splits)

lemma strtod_no_prefix: "no_numeric_prefix s \<Longrightarrow> strtod s = None"
proof -
  assume a: "no_numeric_prefix s"
  obtain neg u where su: "skip_sign s = (neg, u)"
    by (cases "skip_sign s")
  show ?thesis
  proof (cases u)
    case Nil
    with su show ?thesis
      by (simp add: strtod_def starts_with_ci_def scan_hex_def scan_decimal_def scan_mantissa_def)
  next
    case (Cons c r)
    with a su show ?thesis
      by (simp add: strtod_def no_numeric_prefix_def scan_decimal_no_prefix scan_hex_no_prefix)
  qed
qed

lemma scan_decimal_prefix:
  assumes "isdigit c \<or> (c = CHR ''.'' \<and> (case r of [] \<Rightarrow> False | c' # r' \<Rightarrow> isdigit c'))"
  shows "scan_decimal (c # r) \<noteq> None"
proof (cases "isdigit c")
  case True
  then show ?thesis
    by (simp add: scan_decimal_def scan_mantissa_def Let_def)
next
  case False
  with assms obtain c' r' where "c = CHR ''.''" and "r = c' # r'" and "isdigit c'"
    by (cases r) auto
  with False show ?thesis
    by (simp add: scan_decimal_def scan_mantissa_def Let_def)
qed

lemma strtod_prefix: "\<not> no_numeric_prefix s \<Longrightarrow> strtod s \<noteq> None"
proof -
  assume a: "\<not> no_numeric_prefix s"
  obtain neg u where su: "skip_sign s = (neg, u)"
    by (cases "skip_sign s")
  from a su obtain c r where u: "u = c # r"
    by (cases u) (auto simp add: no_numeric_prefix_def)
  from a su u have "starts_with_ci ''inf'' u \<or> starts_with_ci ''nan'' u \<or> isdigit c
      \<or> (c = CHR ''.'' \<and> (case r of [] \<Rightarrow> False | c' # r' \<Rightarrow> isdigit c'))"
    by (auto simp add: no_numeric_prefix_def)
  moreover have "isdigit c \<or> (c = CHR ''.'' \<and> (case r of [] \<Rightarrow> False | c' # r' \<Rightarrow> isdigit c'))
      \<Longrightarrow> scan_decimal u \<noteq> None"
    unfolding u by (rule scan_decimal_prefix)
  ultimately show ?thesis
    using su by (auto simp add: strtod_def split: option.splits)
qed

lemma stod_no_prefix_iff:
  "stod s = Inl (invalid_argument ''stod'') \<longleftrightarrow> no_numeric_prefix s"
proof
  assume "no_numeric_prefix s"
  then show "stod s = Inl (invalid_argument ''stod'')"
    by (simp add: stod_def strtod_no_prefix)
next
  assume a: "stod s = Inl (invalid_argument ''stod'')"
  show "no_numeric_prefix s"
  proof (rule ccontr)
    assume "\<not> no_numeric_prefix s"
    then have "strtod s \<noteq> None"
      by (rule strtod_prefix)
    with a show False
      by (auto simp add: stod_def split: option.splits scanned.splits if_splits)
  qed
qed

subsection \<open>Evaluation of the numeric functions\<close>

lemma bitlen_numeral: "bitlen (numeral k) = bitlen (numeral k div 2) + 1"
  using compute_bitlen [of "numeral k"] by simp

lemma bitlen_1: "bitlen 1 = 1"
  using compute_bitlen [of 1] by simp

lemma floorlog_numeral:
  "floorlog (numeral b) (numeral k) =
     (if (1::nat) < numeral b then floorlog (numeral b) (numeral k div numeral b) + 1 else 0)"
  by (subst compute_floorlog) simp

lemma floorlog_0: "floorlog b 0 = 0"
  by (simp add: floorlog_def)

lemma floorlog_1: "floorlog (numeral b) 1 = (if (1::nat) < numeral b then 1 else 0)"
  "floorlog (numeral b) (Suc 0) = (if (1::nat) < numeral b then 1 else 0)"
  by (subst compute_floorlog, simp add: floorlog_0)+

lemma floor_rat_numeral:
  "\<lfloor>(numeral a :: rat) / numeral b\<rfloor> = numeral a div numeral b"
  using floor_divide_of_int_eq [of "numeral a" "numeral b", where ?'a = rat] by simp

lemmas round_eval = round_half_even_def Let_def floor_rat_numeral

lemmas binary64_eval = round_binary64_def binary_exponent_def bitlen_numeral bitlen_1 round_eval

lemma round_binary64_examples:
  "round_binary64 1 = 1" "round_binary64 12 = 12" "round_binary64 1000 = 1000"
  "round_binary64 2500 = 2500" "round_binary64 1234570 = 1234570"
  by (simp_all add: binary64_eval)

lemmas stod_eval =
  stod_def strtod_def skip_sign_def scan_hex_def scan_decimal_def scan_mantissa_def
  scan_exponent_def starts_with_ci_def lower_eq_def isspace_def isdigit_def isxdigit_def
  digit_value_def digits_value_def range_error_def overflow_threshold_def DBL_MIN_def

lemma strtod_examples:
  "strtod ''good'' = None"
  "strtod ''1'' = Some (Number False 1)"
  "strtod ''2500'' = Some (Number False 2500)"
  "strtod ''1000'' = Some (Number False 1000)"
  "strtod ''12abc'' = Some (Number False 12)"
  "strtod ''1.23457e+06'' = Some (Number False 1234570)"
  by (simp_all add: stod_eval)

lemma range_examples:
  "\<not> range_error 1" "\<not> range_error 2500" "\<not> range_error 1000" "\<not> range_error 12" "\<not> range_error 1234570"
  by (simp_all add: range_error_def overflow_threshold_def DBL_MIN_def)

lemma stod_examples:
  "stod ''good'' = Inl (invalid_argument ''stod'')"
  "stod ''condition'' = Inl (invalid_argument ''stod'')"
  "stod ''abc'' = Inl (invalid_argument ''stod'')"
  "stod ''1'' = Inr (Finite 1)"
  "stod ''2500'' = Inr (Finite 2500)"
  "stod ''1000'' = Inr (Finite 1000)"
  "stod ''12abc'' = Inr (Finite 12)"
  "stod ''1.23457e+06'' = Inr (Finite 1234570)"
  by (simp_all add: stod_def strtod_examples range_examples round_binary64_examples, simp_all add: stod_eval)

lemma show_nat_numeral:
  "show_nat (numeral k) =
     (if (numeral k :: nat) < 10 then [digit_char (numeral k)]
      else show_nat (numeral k div 10) @ [digit_char (numeral k mod 10)])"
  by (rule show_nat.simps)

lemma show_nat_0: "show_nat 0 = ''0''"
  by (simp add: show_nat.simps digit_char_def)

lemma show_nat_1: "show_nat 1 = ''1''" "show_nat (Suc 0) = ''1''"
  by (simp_all add: show_nat.simps digit_char_def)

lemmas nat_eval = show_nat_numeral show_nat_0 show_nat_1 digit_char_def

lemmas floorlog_eval = floorlog_numeral floorlog_0 floorlog_1

lemma format_g_examples:
  "format_g 100000 0 = ''1''" "format_g 250000 3 = ''2500''" "format_g 123457 6 = ''1.23457e+06''"
  "format_g 494066 (- 324) = ''4.94066e-324''"
  by (simp_all add: format_g_def Let_def nat_eval strip_zeros_def)

lemma show_positive_1234567: "show_positive 1234567 = ''1.23457e+06''"
proof -
  have d: "decimal_exponent 1234567 = 6"
    by (simp add: decimal_exponent_def floorlog_eval)
  have r: "round_half_even (1234567 * 10 powi (5 - 6)) = 123457"
    by (simp add: round_eval)
  show ?thesis
    unfolding show_positive_def d Let_def r
    by (simp add: format_g_examples)
qed

lemma show_positive_2500: "show_positive 2500 = ''2500''"
proof -
  have d: "decimal_exponent 2500 = 3"
    by (simp add: decimal_exponent_def floorlog_eval)
  have r: "round_half_even (2500 * 10 powi (5 - 3)) = 250000"
    by (simp add: round_eval)
  show ?thesis
    unfolding show_positive_def d Let_def r
    by (simp add: format_g_examples)
qed

lemma show_positive_1: "show_positive 1 = ''1''"
proof -
  have d: "decimal_exponent 1 = 0"
    by (simp add: decimal_exponent_def floorlog_eval)
  have r: "round_half_even (1 * 10 powi (5 - 0)) = 100000"
    by (simp add: round_eval)
  show ?thesis
    unfolding show_positive_def d Let_def r
    by (simp add: format_g_examples)
qed

subsection \<open>Digits and their value\<close>

lemma isdigit_digit_char: "d < 10 \<Longrightarrow> isdigit (digit_char d)"
proof -
  assume "d < 10"
  then have "d \<in> {0, 1, 2, 3, 4, 5, 6, 7, 8, 9}"
    by auto
  then show ?thesis
    by (auto simp add: digit_char_def isdigit_def)
qed

lemma digit_value_digit_char: "d < 10 \<Longrightarrow> digit_value (digit_char d) = d"
proof -
  assume "d < 10"
  then have "d \<in> {0, 1, 2, 3, 4, 5, 6, 7, 8, 9}"
    by auto
  then show ?thesis
    by (auto simp add: digit_char_def digit_value_def isdigit_def)
qed

lemma show_nat_isdigit: "list_all isdigit (show_nat n)"
proof (induction n rule: show_nat.induct)
  case (1 n)
  show ?case
  proof (cases "n < 10")
    case True
    then show ?thesis
      by (subst show_nat.simps) (simp add: isdigit_digit_char)
  next
    case False
    have "isdigit (digit_char (n mod 10))"
      by (rule isdigit_digit_char) simp
    with False 1 show ?thesis
      by (subst show_nat.simps) simp
  qed
qed

lemma digits_value_snoc:
  "digits_value b (xs @ [c]) = b * digits_value b xs + digit_value c"
  by (simp add: digits_value_def)

lemma digits_value_Nil: "digits_value b [] = 0"
  by (simp add: digits_value_def)

lemma digits_value_append:
  "digits_value b (xs @ ys) = digits_value b xs * b ^ length ys + digits_value b ys"
proof (induction ys rule: rev_induct)
  case Nil
  then show ?case by (simp add: digits_value_Nil)
next
  case (snoc y ys)
  have "digits_value b (xs @ ys @ [y]) = b * digits_value b (xs @ ys) + digit_value y"
    using digits_value_snoc [of b "xs @ ys" y] by simp
  also have "\<dots> = b * (digits_value b xs * b ^ length ys + digits_value b ys) + digit_value y"
    by (simp only: snoc)
  also have "\<dots> = digits_value b xs * b ^ length (ys @ [y]) + digits_value b (ys @ [y])"
    by (simp add: digits_value_snoc algebra_simps)
  finally show ?case .
qed

lemma digits_value_show_nat: "digits_value 10 (show_nat n) = n"
proof (induction n rule: show_nat.induct)
  case (1 n)
  show ?case
  proof (cases "n < 10")
    case True
    then show ?thesis
      by (subst show_nat.simps) (simp add: digits_value_def digit_value_digit_char)
  next
    case False
    have "digit_value (digit_char (n mod 10)) = n mod 10"
      by (rule digit_value_digit_char) simp
    with False 1 show ?thesis
      by (subst show_nat.simps) (simp add: digits_value_snoc)
  qed
qed

lemma length_show_nat:
  "10 ^ k \<le> n \<Longrightarrow> n < 10 ^ Suc k \<Longrightarrow> length (show_nat n) = Suc k"
proof (induction k arbitrary: n)
  case 0
  then show ?case
    by (subst show_nat.simps) simp
next
  case (Suc k)
  have ge: "\<not> n < 10"
  proof
    assume "n < 10"
    moreover have "(10::nat) \<le> 10 * 10 ^ k"
      by simp
    moreover have "(10::nat) * 10 ^ k \<le> n"
      using Suc.prems(1) by simp
    ultimately show False
      by linarith
  qed
  have lo: "10 ^ k \<le> n div 10"
    using Suc.prems(1) by (simp add: less_eq_div_iff_mult_less_eq mult.commute)
  have hi: "n div 10 < 10 ^ Suc k"
    using Suc.prems(2) by (simp add: div_less_iff_less_mult mult.commute)
  from Suc.IH [OF lo hi] ge show ?case
    by (subst show_nat.simps) simp
qed

lemma length_show_nat_six:
  "100000 \<le> m \<Longrightarrow> m < 1000000 \<Longrightarrow> length (show_nat m) = 6"
  using length_show_nat [of 5 m] by simp

lemma digits_value_zeros: "digits_value b (replicate j CHR ''0'') = 0"
proof (induction j)
  case 0
  then show ?case by (simp add: digits_value_Nil)
next
  case (Suc j)
  have "replicate (Suc j) CHR ''0'' = replicate j CHR ''0'' @ [CHR ''0'']"
    by (simp add: replicate_append_same)
  then have "digits_value b (replicate (Suc j) CHR ''0'')
      = b * digits_value b (replicate j CHR ''0'') + digit_value CHR ''0''"
    by (simp only: digits_value_snoc)
  with Suc show ?case
    by (simp add: digit_value_def isdigit_def)
qed

lemma takeWhile_replicate_eq:
  "takeWhile (\<lambda>c. c = a) xs = replicate (length (takeWhile (\<lambda>c. c = a) xs)) a"
  by (induction xs) simp_all

lemma strip_zeros_decomp:
  "ds = strip_zeros ds @ replicate (length ds - length (strip_zeros ds)) CHR ''0''"
proof -
  let ?P = "\<lambda>c. c = CHR ''0''"
  let ?t = "takeWhile ?P (rev ds)"
  have "rev ds = ?t @ dropWhile ?P (rev ds)"
    by simp
  then have "ds = rev (dropWhile ?P (rev ds)) @ rev ?t"
    by (metis rev_append rev_rev_ident)
  moreover have "?t = replicate (length ?t) CHR ''0''"
    by (rule takeWhile_replicate_eq)
  then have "rev ?t = replicate (length ?t) CHR ''0''"
    by (metis rev_replicate)
  moreover have "length ?t = length ds - length (strip_zeros ds)"
  proof -
    have "length (rev ds) = length ?t + length (dropWhile ?P (rev ds))"
      by (metis length_append takeWhile_dropWhile_id)
    then show ?thesis
      by (simp add: strip_zeros_def)
  qed
  ultimately show ?thesis
    by (simp add: strip_zeros_def)
qed

lemma strip_zeros_value:
  "digits_value 10 ds
     = digits_value 10 (strip_zeros ds) * 10 ^ (length ds - length (strip_zeros ds))"
proof -
  have "digits_value 10 ds
      = digits_value 10 (strip_zeros ds @ replicate (length ds - length (strip_zeros ds)) CHR ''0'')"
    using strip_zeros_decomp [of ds] by simp
  then show ?thesis
    by (simp only: digits_value_append digits_value_zeros length_replicate)
qed

lemma strip_zeros_length: "length (strip_zeros ds) \<le> length ds"
  by (simp add: strip_zeros_def length_dropWhile_le [of _ "rev ds", simplified])

lemma strip_zeros_isdigit: "list_all isdigit ds \<Longrightarrow> list_all isdigit (strip_zeros ds)"
  unfolding strip_zeros_def list_all_iff using set_dropWhileD by fastforce

lemma take_isdigit: "list_all isdigit ds \<Longrightarrow> list_all isdigit (take k ds)"
  unfolding list_all_iff by (meson in_set_takeD)

lemma drop_isdigit: "list_all isdigit ds \<Longrightarrow> list_all isdigit (drop k ds)"
  unfolding list_all_iff by (meson in_set_dropD)

lemma takeWhile_digits:
  assumes "list_all isdigit xs" and "case ys of [] \<Rightarrow> True | c # r \<Rightarrow> \<not> isdigit c"
  shows "takeWhile isdigit (xs @ ys) = xs" and "dropWhile isdigit (xs @ ys) = ys"
  using assms by (induction xs) (auto split: list.splits)

subsection \<open>What \<open>strtod\<close> reads in the text of \<open>format_g\<close>\<close>

lemma scan_exponent_Nil: "scan_exponent marker [] = 0"
  by (simp add: scan_exponent_def)

lemma scan_exponent_signed:
  assumes "list_all isdigit ed"
  shows "scan_exponent CHR ''e'' (CHR ''e'' # CHR ''-'' # ed) = - int (digits_value 10 ed)"
    and "scan_exponent CHR ''e'' (CHR ''e'' # CHR ''+'' # ed) = int (digits_value 10 ed)"
proof -
  have tw: "takeWhile isdigit ed = ed"
    using takeWhile_digits(1) [of ed "[]"] assms by simp
  show "scan_exponent CHR ''e'' (CHR ''e'' # CHR ''-'' # ed) = - int (digits_value 10 ed)"
    and "scan_exponent CHR ''e'' (CHR ''e'' # CHR ''+'' # ed) = int (digits_value 10 ed)"
    by (simp_all add: scan_exponent_def lower_eq_def tw)
qed

text \<open>The exponent part that \<open>format_g\<close> writes, or none, and the exponent it denotes.\<close>

lemma scan_decimal_shape:
  assumes ip: "list_all isdigit ip" "ip \<noteq> []" and fp: "list_all isdigit fp"
    and ex: "(ex = [] \<and> E = 0)
      \<or> (\<exists>ed. list_all isdigit ed
            \<and> (ex = CHR ''e'' # CHR ''-'' # ed \<and> E = - int (digits_value 10 ed)
               \<or> ex = CHR ''e'' # CHR ''+'' # ed \<and> E = int (digits_value 10 ed)))"
  shows "scan_decimal (ip @ (if fp = [] then [] else CHR ''.'' # fp) @ ex)
    = Some (of_nat (digits_value 10 (ip @ fp)) * 10 powi (E - int (length fp)))"
proof -
  have hd_ex: "case ex of [] \<Rightarrow> True | c # r \<Rightarrow> \<not> isdigit c"
    using ex by (auto simp add: isdigit_def)
  have not_point: "case ex of [] \<Rightarrow> True | c # r \<Rightarrow> c \<noteq> CHR ''.''"
    using ex by auto
  have E: "scan_exponent CHR ''e'' ex = E"
    using ex by (auto simp add: scan_exponent_Nil scan_exponent_signed)
  show ?thesis
  proof (cases "fp = []")
    case True
    have t: "takeWhile isdigit (ip @ ex) = ip" and d: "dropWhile isdigit (ip @ ex) = ex"
      using takeWhile_digits [OF ip(1) hd_ex] by simp_all
    have "scan_mantissa isdigit (ip @ ex) = Some (ip, [], ex)"
      using ip(2) not_point by (simp add: scan_mantissa_def t d split: list.splits)
    with True E show ?thesis
      by (simp add: scan_decimal_def)
  next
    case False
    have hd_tail: "case CHR ''.'' # fp @ ex of [] \<Rightarrow> True | c # r \<Rightarrow> \<not> isdigit c"
      by (simp add: isdigit_def)
    have t: "takeWhile isdigit (ip @ CHR ''.'' # fp @ ex) = ip"
      and d: "dropWhile isdigit (ip @ CHR ''.'' # fp @ ex) = CHR ''.'' # fp @ ex"
      using takeWhile_digits [OF ip(1) hd_tail] by simp_all
    have t2: "takeWhile isdigit (fp @ ex) = fp" and d2: "dropWhile isdigit (fp @ ex) = ex"
      using takeWhile_digits [OF fp hd_ex] by simp_all
    have "scan_mantissa isdigit (ip @ CHR ''.'' # fp @ ex) = Some (ip, fp, ex)"
      using ip(2) by (simp add: scan_mantissa_def t d t2 d2)
    with False E show ?thesis
      by (simp add: scan_decimal_def)
  qed
qed

lemma scan_hex_None:
  "(case s of c0 # c1 # r \<Rightarrow> \<not> lower_eq c1 CHR ''x'' | _ \<Rightarrow> True) \<Longrightarrow> scan_hex s = None"
  by (auto simp add: scan_hex_def split: list.splits)

lemma digit_not_x: "isdigit c \<Longrightarrow> \<not> lower_eq c CHR ''x''"
  by (auto simp add: isdigit_def lower_eq_def)

lemma strtod_shape:
  assumes ip: "list_all isdigit ip" "ip \<noteq> []" and fp: "list_all isdigit fp"
    and ex: "(ex = [] \<and> E = 0)
      \<or> (\<exists>ed. list_all isdigit ed
            \<and> (ex = CHR ''e'' # CHR ''-'' # ed \<and> E = - int (digits_value 10 ed)
               \<or> ex = CHR ''e'' # CHR ''+'' # ed \<and> E = int (digits_value 10 ed)))"
  shows "strtod (ip @ (if fp = [] then [] else CHR ''.'' # fp) @ ex)
    = Some (Number False (of_nat (digits_value 10 (ip @ fp)) * 10 powi (E - int (length fp))))"
proof -
  let ?s = "ip @ (if fp = [] then [] else CHR ''.'' # fp) @ ex"
  obtain c0 ip' where ipc: "ip = c0 # ip'"
    using ip(2) by (cases ip) auto
  have c0: "isdigit c0"
    using ip(1) ipc by simp
  have s: "?s = c0 # (ip' @ (if fp = [] then [] else CHR ''.'' # fp) @ ex)"
    by (simp add: ipc)
  have sk: "skip_sign ?s = (False, ?s)"
    unfolding s using c0 by (auto simp add: skip_sign_def isspace_def isdigit_def)
  have inf: "\<not> starts_with_ci ''inf'' ?s" and nan: "\<not> starts_with_ci ''nan'' ?s"
    unfolding s using c0 by (auto simp add: starts_with_ci_def lower_eq_def isdigit_def)
  have "case ?s of c0 # c1 # r \<Rightarrow> \<not> lower_eq c1 CHR ''x'' | _ \<Rightarrow> True"
  proof (cases ip')
    case (Cons c1 r)
    then have "isdigit c1"
      using ip(1) ipc by simp
    then show ?thesis
      unfolding s Cons by (simp add: digit_not_x)
  next
    case Nil
    show ?thesis
      unfolding s Nil using ex by (auto simp add: lower_eq_def)
  qed
  then have hex: "scan_hex ?s = None"
    by (rule scan_hex_None)
  show ?thesis
    unfolding strtod_def sk using inf nan hex scan_decimal_shape [OF ip fp ex] by simp
qed

lemma split_value:
  assumes m: "digits_value 10 ds = m"
  shows "(of_nat (digits_value 10 (take t ds @ strip_zeros (drop t ds))) :: rat)
      * 10 powi (E - int (length (strip_zeros (drop t ds))))
    = of_nat m * 10 powi (E - int (length (drop t ds)))"
proof -
  let ?a = "take t ds" and ?b = "drop t ds"
  let ?fr = "strip_zeros ?b"
  let ?j = "length ?b - length ?fr"
  have len: "length ?b = length ?fr + ?j"
    using strip_zeros_length [of ?b] by simp
  have "digits_value 10 ds = digits_value 10 (?a @ ?b)"
    by simp
  also have "\<dots> = digits_value 10 ?a * 10 ^ length ?b + digits_value 10 ?b"
    by (rule digits_value_append)
  also have "\<dots> = digits_value 10 ?a * 10 ^ (length ?fr + ?j) + digits_value 10 ?fr * 10 ^ ?j"
    using strip_zeros_value [of ?b] len by simp
  also have "\<dots> = digits_value 10 (?a @ ?fr) * 10 ^ ?j"
    by (simp add: digits_value_append power_add algebra_simps)
  finally have "m = digits_value 10 (?a @ ?fr) * 10 ^ ?j"
    using m by simp
  then have "(of_nat m :: rat) = of_nat (digits_value 10 (?a @ ?fr)) * 10 powi int ?j"
    by simp
  then have "(of_nat m :: rat) * 10 powi (E - int (length ?b))
      = of_nat (digits_value 10 (?a @ ?fr)) * (10 powi int ?j * 10 powi (E - int (length ?b)))"
    by simp
  also have "10 powi int ?j * (10::rat) powi (E - int (length ?b))
      = 10 powi (int ?j + (E - int (length ?b)))"
    by (simp add: power_int_add)
  also have "int ?j + (E - int (length ?b)) = E - int (length ?fr)"
    using len by simp
  finally show ?thesis
    by simp
qed

lemma exponent_digits:
  "list_all isdigit (if length (show_nat n) < 2 then CHR ''0'' # show_nat n else show_nat n)"
  "digits_value 10 (if length (show_nat n) < 2 then CHR ''0'' # show_nat n else show_nat n) = n"
proof -
  have z: "isdigit CHR ''0''"
    by (simp add: isdigit_def)
  show "list_all isdigit (if length (show_nat n) < 2 then CHR ''0'' # show_nat n else show_nat n)"
    using show_nat_isdigit [of n] z by simp
  have "digits_value 10 (CHR ''0'' # show_nat n) = digits_value 10 (replicate 1 CHR ''0'' @ show_nat n)"
    by simp
  also have "\<dots> = n"
    by (simp only: digits_value_append digits_value_zeros digits_value_show_nat)
  finally show "digits_value 10 (if length (show_nat n) < 2 then CHR ''0'' # show_nat n else show_nat n) = n"
    by (simp add: digits_value_show_nat)
qed

lemma strtod_format_g:
  assumes "100000 \<le> m" and "m < 1000000"
  shows "strtod (format_g m X) = Some (Number False (of_nat m * 10 powi (X - 5)))"
proof -
  let ?ds = "show_nat m"
  have dig: "list_all isdigit ?ds" by (rule show_nat_isdigit)
  have len: "length ?ds = 6" using assms by (rule length_show_nat_six)
  have val: "digits_value 10 ?ds = m" by (rule digits_value_show_nat)
  show ?thesis
  proof (cases "X < - 4 \<or> 6 \<le> X")
    case True
    let ?fr = "strip_zeros (drop 1 ?ds)"
    let ?ed = "if length (show_nat (nat \<bar>X\<bar>)) < 2 then CHR ''0'' # show_nat (nat \<bar>X\<bar>)
               else show_nat (nat \<bar>X\<bar>)"
    let ?ex = "[CHR ''e'', if X < 0 then CHR ''-'' else CHR ''+''] @ ?ed"
    have f: "format_g m X = take 1 ?ds @ (if ?fr = [] then [] else CHR ''.'' # ?fr) @ ?ex"
      using True by (simp add: format_g_def Let_def)
    have ip: "list_all isdigit (take 1 ?ds)" "take 1 ?ds \<noteq> []"
      using dig len by (auto simp add: take_isdigit)
    have fp: "list_all isdigit ?fr"
      using dig by (simp add: strip_zeros_isdigit drop_isdigit)
    have ex: "(?ex = [] \<and> X = 0)
      \<or> (\<exists>ed. list_all isdigit ed
            \<and> (?ex = CHR ''e'' # CHR ''-'' # ed \<and> X = - int (digits_value 10 ed)
               \<or> ?ex = CHR ''e'' # CHR ''+'' # ed \<and> X = int (digits_value 10 ed)))"
    proof (rule disjI2, rule exI [of _ ?ed], rule conjI)
      show "list_all isdigit ?ed" by (rule exponent_digits)
      show "?ex = CHR ''e'' # CHR ''-'' # ?ed \<and> X = - int (digits_value 10 ?ed)
               \<or> ?ex = CHR ''e'' # CHR ''+'' # ?ed \<and> X = int (digits_value 10 ?ed)"
        by (cases "X < 0") (simp_all only: exponent_digits, simp_all)
    qed
    have "strtod (format_g m X)
      = Some (Number False (of_nat (digits_value 10 (take 1 ?ds @ ?fr)) * 10 powi (X - int (length ?fr))))"
      unfolding f by (rule strtod_shape [OF ip fp ex])
    also have "of_nat (digits_value 10 (take 1 ?ds @ ?fr)) * 10 powi (X - int (length ?fr))
        = (of_nat m :: rat) * 10 powi (X - int (length (drop 1 ?ds)))"
      by (rule split_value [OF val])
    finally show ?thesis
      using len by simp
  next
    case False
    show ?thesis
    proof (cases "0 \<le> X")
      case True
      let ?t = "nat X + 1"
      let ?fr = "strip_zeros (drop ?t ?ds)"
      have f: "format_g m X = take ?t ?ds @ (if ?fr = [] then [] else CHR ''.'' # ?fr) @ []"
        using False True by (simp add: format_g_def Let_def)
      have ip: "list_all isdigit (take ?t ?ds)" "take ?t ?ds \<noteq> []"
        using dig len by (auto simp add: take_isdigit)
      have fp: "list_all isdigit ?fr"
        using dig by (simp add: strip_zeros_isdigit drop_isdigit)
      have ex: "(([]::string) = [] \<and> (0::int) = 0)
        \<or> (\<exists>ed. list_all isdigit ed
            \<and> ([] = CHR ''e'' # CHR ''-'' # ed \<and> (0::int) = - int (digits_value 10 ed)
               \<or> [] = CHR ''e'' # CHR ''+'' # ed \<and> (0::int) = int (digits_value 10 ed)))"
        by simp
      have "strtod (format_g m X)
        = Some (Number False (of_nat (digits_value 10 (take ?t ?ds @ ?fr)) * 10 powi (0 - int (length ?fr))))"
        unfolding f by (rule strtod_shape [OF ip fp ex])
      also have "of_nat (digits_value 10 (take ?t ?ds @ ?fr)) * 10 powi (0 - int (length ?fr))
          = (of_nat m :: rat) * 10 powi (0 - int (length (drop ?t ?ds)))"
        by (rule split_value [OF val])
      also have "0 - int (length (drop ?t ?ds)) = X - 5"
        using len True False by simp
      finally show ?thesis .
    next
      case neg: False
      let ?z = "replicate (nat (- X - 1)) CHR ''0''"
      let ?st = "strip_zeros ?ds"
      let ?j = "length ?ds - length ?st"
      have mj: "m = digits_value 10 ?st * 10 ^ ?j"
        using strip_zeros_value [of ?ds] val by simp
      have st_ne: "?st \<noteq> []"
      proof
        assume "?st = []"
        with mj have "m = 0" by (simp add: digits_value_Nil)
        with assms show False by simp
      qed
      have f: "format_g m X = ''0'' @ (if ?z @ ?st = [] then [] else CHR ''.'' # (?z @ ?st)) @ []"
        using False neg st_ne by (simp add: format_g_def Let_def)
      have ip: "list_all isdigit ''0''" "''0'' \<noteq> []"
        by (simp_all add: isdigit_def)
      have "list_all isdigit ?z"
        by (simp add: list_all_iff isdigit_def)
      moreover have "list_all isdigit ?st"
        using dig by (rule strip_zeros_isdigit)
      ultimately have fp: "list_all isdigit (?z @ ?st)"
        by simp
      have ex: "(([]::string) = [] \<and> (0::int) = 0)
        \<or> (\<exists>ed. list_all isdigit ed
            \<and> ([] = CHR ''e'' # CHR ''-'' # ed \<and> (0::int) = - int (digits_value 10 ed)
               \<or> [] = CHR ''e'' # CHR ''+'' # ed \<and> (0::int) = int (digits_value 10 ed)))"
        by simp
      have "''0'' @ ?z = replicate (Suc (nat (- X - 1))) CHR ''0''"
        by simp
      then have "digits_value 10 (''0'' @ ?z @ ?st)
          = digits_value 10 (replicate (Suc (nat (- X - 1))) CHR ''0'' @ ?st)"
        by (metis append_assoc)
      also have "\<dots> = digits_value 10 ?st"
        by (simp only: digits_value_append digits_value_zeros)
      finally have dv: "digits_value 10 (''0'' @ ?z @ ?st) = digits_value 10 ?st" .
      have lj: "int (length ?st) + int ?j = 6"
        using len strip_zeros_length [of ?ds] by simp
      have "strtod (format_g m X)
        = Some (Number False (of_nat (digits_value 10 (''0'' @ ?z @ ?st))
                               * 10 powi (0 - int (length (?z @ ?st)))))"
        unfolding f by (rule strtod_shape [OF ip fp ex])
      also have "(of_nat (digits_value 10 (''0'' @ ?z @ ?st)) :: rat)
            * 10 powi (0 - int (length (?z @ ?st)))
          = of_nat (digits_value 10 ?st) * 10 powi (0 - int (length (?z @ ?st)))"
        by (simp only: dv)
      also have "0 - int (length (?z @ ?st)) = int ?j + (X - 5)"
        using neg lj by simp
      also have "(of_nat (digits_value 10 ?st) :: rat) * 10 powi (int ?j + (X - 5))
          = of_nat (digits_value 10 ?st) * (10 powi int ?j * 10 powi (X - 5))"
        by (simp add: power_int_add)
      also have "\<dots> = of_nat m * 10 powi (X - 5)"
        by (subst (2) mj) simp
      finally show ?thesis .
    qed
  qed
qed

subsection \<open>Rounding\<close>

lemma round_half_even_near:
  assumes "\<bar>x - of_int n\<bar> < 1 / 2"
  shows "round_half_even x = n"
proof -
  have lo: "of_int n - 1 / 2 < x" and hi: "x < of_int n + 1 / 2"
    using assms by linarith+
  have "x < of_int (n + 1)"
    using hi by simp
  then have "\<lfloor>x\<rfloor> < n + 1"
    by (simp only: floor_less_iff)
  moreover have "of_int (n - 1) \<le> x"
    using lo by simp
  then have "n - 1 \<le> \<lfloor>x\<rfloor>"
    by (simp only: le_floor_iff)
  ultimately consider "\<lfloor>x\<rfloor> = n" | "\<lfloor>x\<rfloor> = n - 1"
    by linarith
  then show ?thesis
  proof cases
    case 1
    then show ?thesis
      using hi by (simp add: round_half_even_def Let_def)
  next
    case 2
    then show ?thesis
      using lo by (simp add: round_half_even_def Let_def)
  qed
qed

lemma round_half_even_error: "\<bar>of_int (round_half_even x) - x\<bar> \<le> 1 / 2"
proof -
  have "of_int \<lfloor>x\<rfloor> \<le> x" and "x < of_int \<lfloor>x\<rfloor> + 1"
    by linarith+
  then show ?thesis
    by (auto simp add: round_half_even_def Let_def)
qed

lemma floorlog_positive:
  assumes "0 < n" and "L = floorlog 10 n"
  shows "1 \<le> L" and "10 ^ (L - 1) \<le> n" and "n < 10 ^ L"
proof -
  show b1: "10 ^ (L - 1) \<le> n" and b2: "n < 10 ^ L"
    using floorlog_bounds [of n 10] assms by simp_all
  show "1 \<le> L"
  proof (rule ccontr)
    assume "\<not> 1 \<le> L"
    then have "L = 0" by simp
    with b2 assms(1) show False by simp
  qed
qed

lemma decimal_exponent_bounds:
  assumes "0 < q"
  shows "10 powi decimal_exponent q \<le> q" and "q < 10 powi (decimal_exponent q + 1)"
proof -
  have "10 powi decimal_exponent q \<le> q \<and> q < 10 powi (decimal_exponent q + 1)"
  proof (cases "1 \<le> q")
    case True
    define n where "n = nat \<lfloor>q\<rfloor>"
    define L where "L = floorlog 10 n"
    have f1: "1 \<le> \<lfloor>q\<rfloor>"
      using True by (simp add: le_floor_iff)
    then have n: "0 < n" and nq: "int n = \<lfloor>q\<rfloor>"
      unfolding n_def by linarith+
    note b = floorlog_positive [OF n L_def]
    have de: "decimal_exponent q = int L - 1"
      using True by (simp add: decimal_exponent_def L_def n_def)
    have el: "int L - 1 = int (L - 1)"
      using b(1) by linarith
    have "(of_nat (10 ^ (L - 1)) :: rat) \<le> of_nat n"
      using b(2) by (simp only: of_nat_le_iff)
    also have "(of_nat n :: rat) = of_int \<lfloor>q\<rfloor>"
      using nq by (metis of_int_of_nat_eq)
    also have "\<dots> \<le> q"
      by simp
    finally have "(10::rat) ^ (L - 1) \<le> q"
      by simp
    then have lo: "10 powi decimal_exponent q \<le> q"
      by (simp only: de el power_int_of_nat)
    have "int n + 1 \<le> int (10 ^ L)"
      using b(3) by linarith
    then have "\<lfloor>q\<rfloor> + 1 \<le> int (10 ^ L)"
      using nq by simp
    then have "(of_int (\<lfloor>q\<rfloor> + 1) :: rat) \<le> of_int (int (10 ^ L))"
      by (simp only: of_int_le_iff)
    moreover have "q < of_int (\<lfloor>q\<rfloor> + 1)"
      by linarith
    ultimately have "q < of_int (int (10 ^ L))"
      by (rule less_le_trans [rotated])
    then have "q < 10 ^ L"
      by simp
    moreover have "decimal_exponent q + 1 = int L"
      using de by simp
    ultimately have "q < 10 powi (decimal_exponent q + 1)"
      by (simp only: power_int_of_nat)
    with lo show ?thesis ..
  next
    case False
    define c where "c = \<lceil>1 / q\<rceil>"
    define n where "n = nat c - 1"
    define L where "L = floorlog 10 n"
    have t: "1 < 1 / q"
      using False assms by simp
    then have c: "1 < c"
      unfolding c_def by simp
    then have n: "0 < n" and nc: "int n = c - 1"
      unfolding n_def by linarith+
    note b = floorlog_positive [OF n L_def]
    have de: "decimal_exponent q = - int L"
      using False by (simp add: decimal_exponent_def L_def n_def c_def)
    have "c \<le> int (10 ^ L)"
      using b(3) nc by linarith
    then have "(of_int c :: rat) \<le> of_int (int (10 ^ L))"
      by (simp only: of_int_le_iff)
    moreover have "1 / q \<le> of_int c"
      unfolding c_def by simp
    ultimately have "1 / q \<le> of_int (int (10 ^ L))"
      by (rule order_trans [rotated])
    then have "1 / q \<le> 10 ^ L"
      by simp
    then have "1 \<le> 10 ^ L * q"
      using assms by (simp add: field_simps)
    then have "1 / 10 ^ L \<le> q"
      by (simp add: field_simps)
    then have lo: "10 powi decimal_exponent q \<le> q"
      by (simp only: de power_int_minus_divide power_int_of_nat)
    have "int (10 ^ (L - 1)) \<le> c - 1"
      using b(2) nc by linarith
    then have "(of_int (int (10 ^ (L - 1))) :: rat) \<le> of_int (c - 1)"
      by (simp only: of_int_le_iff)
    moreover have "of_int (c - 1) < 1 / q"
      unfolding c_def by linarith
    ultimately have "of_int (int (10 ^ (L - 1))) < 1 / q"
      by (rule le_less_trans)
    then have "10 ^ (L - 1) < 1 / q"
      by simp
    then have "q * 10 ^ (L - 1) < 1"
      using assms by (simp add: field_simps)
    then have "q < 1 / 10 ^ (L - 1)"
      by (simp add: field_simps)
    moreover have "decimal_exponent q + 1 = - int (L - 1)"
      using de b(1) by linarith
    ultimately have "q < 10 powi (decimal_exponent q + 1)"
      by (simp only: power_int_minus_divide power_int_of_nat)
    with lo show ?thesis ..
  qed
  then show "10 powi decimal_exponent q \<le> q" and "q < 10 powi (decimal_exponent q + 1)"
    by simp_all
qed

lemma binary_exponent_le:
  assumes "0 < q"
  shows "2 powi binary_exponent q \<le> q"
proof (cases "1 \<le> q")
  case True
  define x where "x = \<lfloor>q\<rfloor>"
  define J where "J = nat (bitlen x - 1)"
  have x: "0 < x"
    unfolding x_def using True by (simp add: less_floor_iff)
  have b: "2 ^ J \<le> x"
    unfolding J_def using bitlen_bounds [OF x] by simp
  have "1 \<le> bitlen x"
    using x by (auto simp add: bitlen_alt_def)
  then have "bitlen x - 1 = int J"
    unfolding J_def by simp
  then have e: "binary_exponent q = int J"
    using True by (simp add: binary_exponent_def x_def)
  have "(of_int (2 ^ J) :: rat) \<le> of_int x"
    using b by (simp only: of_int_le_iff)
  also have "\<dots> \<le> q"
    unfolding x_def by simp
  finally have "(2::rat) ^ J \<le> q"
    by simp
  then show ?thesis
    by (simp only: e power_int_of_nat)
next
  case False
  define c where "c = \<lceil>1 / q\<rceil>"
  define J where "J = nat (bitlen (c - 1))"
  have t: "1 < 1 / q"
    using False assms by simp
  then have c: "1 < c"
    unfolding c_def by simp
  then have y: "0 < c - 1"
    by linarith
  have b: "c - 1 < 2 ^ J"
    unfolding J_def using bitlen_bounds [OF y] by simp
  have "bitlen (c - 1) = int J"
    unfolding J_def using bitlen_nonneg [of "c - 1"] by simp
  then have e: "binary_exponent q = - int J"
    using False by (simp add: binary_exponent_def c_def)
  have "c \<le> 2 ^ J"
    using b by linarith
  then have "(of_int c :: rat) \<le> of_int (2 ^ J)"
    by (simp only: of_int_le_iff)
  moreover have "1 / q \<le> of_int c"
    unfolding c_def by simp
  ultimately have "1 / q \<le> of_int (2 ^ J)"
    by (rule order_trans [rotated])
  then have "1 / q \<le> 2 ^ J"
    by simp
  then have "1 \<le> 2 ^ J * q"
    using assms by (simp add: field_simps)
  then have "1 / 2 ^ J \<le> q"
    by (simp add: field_simps)
  then show ?thesis
    by (simp only: e power_int_minus_divide power_int_of_nat)
qed

lemma round_binary64_error:
  assumes "DBL_MIN \<le> d"
  shows "\<bar>round_binary64 d - d\<bar> \<le> d / 2 ^ 53"
proof -
  let ?e = "max (binary_exponent d) (- 1022)"
  let ?u = "(2::rat) powi (?e - 52)"
  let ?R = "round_half_even (d / ?u)"
  have pos: "0 < d"
    using assms by (simp add: DBL_MIN_def)
  have u: "0 < ?u"
    by simp
  have "2 powi (- 1022) \<le> d"
    using assms by (simp add: DBL_MIN_def power_int_minus field_simps)
  then have e: "2 powi ?e \<le> d"
    using binary_exponent_le [OF pos] by (cases "binary_exponent d \<le> - 1022") (simp_all add: max_def)
  have ue: "?u = 2 powi ?e / 2 ^ 52"
    by (simp add: power_int_diff)
  have "\<bar>of_int ?R - d / ?u\<bar> \<le> 1 / 2"
    by (rule round_half_even_error)
  then have "\<bar>of_int ?R - d / ?u\<bar> * ?u \<le> 1 / 2 * ?u"
    using u by (intro mult_right_mono) simp_all
  moreover have "\<bar>of_int ?R - d / ?u\<bar> * ?u = \<bar>of_int ?R * ?u - d\<bar>"
  proof -
    have "\<bar>of_int ?R - d / ?u\<bar> * ?u = \<bar>(of_int ?R - d / ?u) * ?u\<bar>"
      using u by (simp add: abs_mult)
    also have "(of_int ?R - d / ?u) * ?u = of_int ?R * ?u - d"
      using u by (simp add: field_simps)
    finally show ?thesis .
  qed
  ultimately have "\<bar>of_int ?R * ?u - d\<bar> \<le> 1 / 2 * ?u"
    by simp
  also have "1 / 2 * ?u = 2 powi ?e / 2 ^ 53"
    unfolding ue by simp
  also have "\<dots> \<le> d / 2 ^ 53"
    using e by (simp add: divide_right_mono)
  finally show ?thesis
    by (simp add: round_binary64_def Let_def)
qed

lemma six_digit_core:
  fixes x :: rat
  assumes m: "100000 \<le> m" "m < 1000000"
    and x: "\<bar>x - of_nat m\<bar> \<le> of_nat m / 2 ^ 53"
    and j: "10 powi j \<le> x" "x < 10 powi (j + 1)"
  shows "(j = 5 \<and> round_half_even (x * 10 powi (5 - j)) = int m)
    \<or> (j = 4 \<and> m = 100000 \<and> round_half_even (x * 10 powi (5 - j)) = 1000000)"
proof -
  define r :: rat where "r = of_nat m"
  have r: "100000 \<le> r" "r \<le> 999999"
    using m unfolding r_def by simp_all
  have "\<bar>x - r\<bar> \<le> r / 9007199254740992"
    using x unfolding r_def by simp
  then have lo: "r - r / 9007199254740992 \<le> x" and hi: "x \<le> r + r / 9007199254740992"
    by linarith+
  have x_lt: "x < 1000000"
    using hi r by linarith
  have x_gt: "10000 < x"
    using lo r by linarith
  have "j < 6"
  proof (rule ccontr)
    assume "\<not> j < 6"
    then have "(10::rat) powi 6 \<le> 10 powi j"
      by (intro power_int_increasing) simp_all
    with j(1) x_lt show False
      by simp
  qed
  moreover have "3 < j"
  proof (rule ccontr)
    assume "\<not> 3 < j"
    then have "(10::rat) powi (j + 1) \<le> 10 powi 4"
      by (intro power_int_increasing) simp_all
    with j(2) x_gt show False
      by simp
  qed
  ultimately consider "j = 5" | "j = 4"
    by linarith
  then show ?thesis
  proof cases
    case 1
    have "\<bar>x - r\<bar> < 1 / 2"
      using lo hi r by linarith
    moreover have "r = of_int (int m)"
      unfolding r_def by simp
    ultimately have "\<bar>x - of_int (int m)\<bar> < 1 / 2"
      by (simp only:)
    then have "round_half_even x = int m"
      by (rule round_half_even_near)
    with 1 show ?thesis
      by simp
  next
    case 2
    with j(2) have x5: "x < 100000"
      by simp
    have "r < 100001"
      using lo x5 by linarith
    then have "m < 100001"
      unfolding r_def by simp
    with m(1) have m5: "m = 100000"
      by simp
    then have r5: "r = 100000"
      unfolding r_def by simp
    have "\<bar>x * 10 - 1000000\<bar> < 1 / 2"
      using lo x5 r5 by linarith
    then have "\<bar>x * 10 - of_int 1000000\<bar> < 1 / 2"
      by simp
    then have "round_half_even (x * 10) = 1000000"
      by (rule round_half_even_near)
    with 2 m5 show ?thesis
      by simp
  qed
qed

lemma show_positive_six_digits:
  assumes m: "100000 \<le> m" "m < 1000000"
    and d: "d = of_nat m * 10 powi k"
    and p: "\<bar>p - d\<bar> \<le> d / 2 ^ 53"
  shows "show_positive p = format_g m (k + 5)"
proof -
  define t :: rat where "t = 10 powi k"
  define x where "x = p / t"
  define X0 where "X0 = decimal_exponent p"
  have t: "0 < t"
    unfolding t_def by simp
  have dt: "d = of_nat m * t"
    using d unfolding t_def .
  have dpos: "0 < d"
    unfolding dt using m(1) t by simp
  have "d / 2 ^ 53 < d"
    using dpos by simp
  with p have ppos: "0 < p"
    by linarith
  have px: "p = x * t"
    unfolding x_def using t by simp
  have "\<bar>p - d\<bar> = \<bar>x - of_nat m\<bar> * t"
    unfolding px dt using t by (simp add: abs_mult flip: left_diff_distrib)
  moreover have "d / 2 ^ 53 = of_nat m / 2 ^ 53 * t"
    unfolding dt by simp
  ultimately have "\<bar>x - of_nat m\<bar> * t \<le> of_nat m / 2 ^ 53 * t"
    using p by simp
  then have x: "\<bar>x - of_nat m\<bar> \<le> of_nat m / 2 ^ 53"
    using t by (simp only: mult_le_cancel_right_pos)
  have b: "10 powi X0 \<le> p" "p < 10 powi (X0 + 1)"
    unfolding X0_def using decimal_exponent_bounds [OF ppos] by simp_all
  have sub: "(10::rat) powi (X0 - k) = 10 powi X0 / t"
    unfolding t_def by (simp add: power_int_diff)
  have sub1: "(10::rat) powi (X0 - k + 1) = 10 powi (X0 + 1) / t"
  proof -
    have "(10::rat) powi (X0 + 1 - k) = 10 powi (X0 + 1) / 10 powi k"
      by (rule power_int_diff) simp
    moreover have "X0 - k + 1 = X0 + 1 - k" by simp
    ultimately show ?thesis
      unfolding t_def by (simp only:)
  qed
  have j1: "10 powi (X0 - k) \<le> x"
    unfolding sub x_def using b(1) t by (simp add: divide_right_mono)
  have j2: "x < 10 powi (X0 - k + 1)"
    unfolding sub1 x_def using b(2) t by (simp add: divide_strict_right_mono)
  have arg: "p * 10 powi (5 - X0) = x * 10 powi (5 - (X0 - k))"
  proof -
    have "(10::rat) powi (k + (5 - X0)) = 10 powi k * 10 powi (5 - X0)"
      by (rule power_int_add) simp
    moreover have "5 - (X0 - k) = k + (5 - X0)" by simp
    ultimately have "(10::rat) powi (5 - (X0 - k)) = t * 10 powi (5 - X0)"
      unfolding t_def by (simp only:)
    then show ?thesis
      unfolding px by simp
  qed
  from six_digit_core [OF m x j1 j2]
  show ?thesis
  proof
    assume a: "X0 - k = 5 \<and> round_half_even (x * 10 powi (5 - (X0 - k))) = int m"
    then have "X0 = k + 5"
      by simp
    moreover have "round_half_even (p * 10 powi (5 - X0)) = int m"
      unfolding arg using a by blast
    moreover have "int m \<noteq> 1000000"
      using m(2) by simp
    ultimately show ?thesis
      unfolding show_positive_def Let_def X0_def [symmetric] by simp
  next
    assume a: "X0 - k = 4 \<and> m = 100000
      \<and> round_half_even (x * 10 powi (5 - (X0 - k))) = 1000000"
    then have "X0 + 1 = k + 5" and "m = 100000"
      by simp_all
    moreover have "round_half_even (p * 10 powi (5 - X0)) = 1000000"
      unfolding arg using a by blast
    ultimately show ?thesis
      unfolding show_positive_def Let_def X0_def [symmetric] by (simp add: add.commute)
  qed
qed

text \<open>A price of six significant digits in the normal range is read back from its text.\<close>

lemma stod_show_double_six_digits:
  assumes m: "100000 \<le> m" "m < 1000000"
    and d: "d = of_nat m * 10 powi k"
    and lo: "DBL_MIN \<le> d" and hi: "d < overflow_threshold"
  shows "stod (show_double (Finite (round_binary64 d))) = Inr (Finite (round_binary64 d))"
proof -
  let ?p = "round_binary64 d"
  have e: "\<bar>?p - d\<bar> \<le> d / 2 ^ 53"
    using lo by (rule round_binary64_error)
  have dpos: "0 < d"
    using lo by (simp add: DBL_MIN_def)
  then have "d / 2 ^ 53 < d"
    by simp
  with e have ppos: "0 < ?p"
    by linarith
  have "show_double (Finite ?p) = show_positive ?p"
    using ppos by (simp add: show_double_def)
  also have "\<dots> = format_g m (k + 5)"
    using m d e by (rule show_positive_six_digits)
  finally have sh: "show_double (Finite ?p) = format_g m (k + 5)" .
  have "strtod (format_g m (k + 5)) = Some (Number False (of_nat m * 10 powi (k + 5 - 5)))"
    using m by (rule strtod_format_g)
  then have st: "strtod (format_g m (k + 5)) = Some (Number False d)"
    using d by simp
  have "\<not> range_error d"
    using lo hi by (simp add: range_error_def)
  then show ?thesis
    unfolding sh stod_def st by simp
qed

lemma decimal_exponent_unique:
  assumes "0 < q" and "10 powi X \<le> q" and "q < 10 powi (X + 1)"
  shows "decimal_exponent q = X"
proof -
  define D where "D = decimal_exponent q"
  have b: "10 powi D \<le> q" "q < 10 powi (D + 1)"
    unfolding D_def using decimal_exponent_bounds [OF assms(1)] by simp_all
  have "D < X + 1"
  proof (rule ccontr)
    assume "\<not> D < X + 1"
    then have "(10::rat) powi (X + 1) \<le> 10 powi D"
      by (intro power_int_increasing) simp_all
    with b(1) assms(3) show False
      by linarith
  qed
  moreover have "X < D + 1"
  proof (rule ccontr)
    assume "\<not> X < D + 1"
    then have "(10::rat) powi (D + 1) \<le> 10 powi X"
      by (intro power_int_increasing) simp_all
    with b(2) assms(2) show False
      by linarith
  qed
  ultimately show ?thesis
    unfolding D_def by simp
qed

subsection \<open>The printed form of a price\<close>

lemma show_nat_no_comma: "CHR '','' \<notin> set (show_nat n)"
  using show_nat_isdigit [of n] by (auto simp add: list_all_iff isdigit_def)

lemma strip_zeros_subset: "set (strip_zeros ds) \<subseteq> set ds"
  unfolding strip_zeros_def using set_dropWhileD [of _ "\<lambda>c. c = CHR ''0''" "rev ds"] by auto

lemma take_no_comma: "CHR '','' \<notin> set xs \<Longrightarrow> CHR '','' \<notin> set (take k xs)"
  by (meson in_set_takeD)

lemma drop_no_comma: "CHR '','' \<notin> set xs \<Longrightarrow> CHR '','' \<notin> set (drop k xs)"
  by (meson in_set_dropD)

lemma strip_no_comma: "CHR '','' \<notin> set xs \<Longrightarrow> CHR '','' \<notin> set (strip_zeros xs)"
  using strip_zeros_subset [of xs] by auto

lemma format_g_no_comma: "CHR '','' \<notin> set (format_g m X)"
  unfolding format_g_def Let_def
  by (simp add: show_nat_no_comma take_no_comma drop_no_comma strip_no_comma)

lemma show_positive_no_comma: "CHR '','' \<notin> set (show_positive q)"
  unfolding show_positive_def Let_def by (simp add: format_g_no_comma)

lemma show_double_no_comma: "CHR '','' \<notin> set (show_double d)"
  by (cases d) (simp_all add: show_double_def show_positive_no_comma)

lemma show_double_examples:
  "show_double (Finite 1) = ''1''" "show_double (Finite 2500) = ''2500''"
  "show_double (Finite 1234567) = ''1.23457e+06''"
  by (simp_all add: show_double_def show_positive_1 show_positive_2500 show_positive_1234567)

text \<open>The smallest subnormal number: its text, and what \<open>stod\<close> makes of the text.\<close>

lemma show_double_tiny: "show_double (Finite DBL_TRUE_MIN) = ''4.94066e-324''"
proof -
  have d: "decimal_exponent (1 / 2 ^ 1074) = - 324"
    by (rule decimal_exponent_unique) simp_all
  have r: "round_half_even (1 / 2 ^ 1074 * 10 powi (5 - (- 324))) = 494066"
    by (simp add: round_eval)
  have "show_positive (1 / 2 ^ 1074) = ''4.94066e-324''"
    unfolding show_positive_def d Let_def r
    by (simp add: format_g_examples)
  then show ?thesis
    by (simp add: show_double_def DBL_TRUE_MIN_def)
qed

lemma stod_tiny: "stod ''4.94066e-324'' = Inl (out_of_range ''stod'')"
proof -
  have s: "strtod ''4.94066e-324'' = Some (Number False (494066 * 10 powi (- 329)))"
    by (simp add: stod_eval)
  have r: "range_error (494066 * 10 powi (- 329))"
    by (simp add: range_error_def overflow_threshold_def DBL_MIN_def floor_rat_numeral)
  show ?thesis
    unfolding stod_def s using r by simp
qed

lemmas validate_eval = validate_def allowed_def isfinite_def le_zero_def

text \<open>The smallest subnormal number written exactly is read without a range error.\<close>

lemma round_binary64_tiny: "round_binary64 DBL_TRUE_MIN = DBL_TRUE_MIN"
proof -
  let ?q = "(1::rat) / 2 ^ 1074"
  have pos: "0 < ?q"
    by simp
  have "binary_exponent ?q \<le> - 1022"
  proof (rule ccontr)
    assume "\<not> binary_exponent ?q \<le> - 1022"
    then have "(2::rat) powi (- 1021) \<le> 2 powi binary_exponent ?q"
      by (intro power_int_increasing) simp_all
    also have "\<dots> \<le> ?q"
      using pos by (rule binary_exponent_le)
    finally show False
      by simp
  qed
  then have e: "max (binary_exponent ?q) (- 1022) = - 1022"
    by simp
  show ?thesis
    unfolding DBL_TRUE_MIN_def round_binary64_def Let_def e by (simp add: round_eval)
qed

lemma stod_hex_tiny: "stod ''0x1p-1074'' = Inr (Finite DBL_TRUE_MIN)"
proof -
  have s: "strtod ''0x1p-1074'' = Some (Number False DBL_TRUE_MIN)"
    by (simp add: stod_eval DBL_TRUE_MIN_def)
  have r: "\<not> range_error DBL_TRUE_MIN"
    by (simp add: range_error_def overflow_threshold_def DBL_MIN_def DBL_TRUE_MIN_def)
  show ?thesis
    unfolding stod_def s using r by (simp add: round_binary64_tiny)
qed

section \<open>Facts about the repository\<close>

lemma last_with_id_Nil: "last_with_id k [] = None"
  by (simp add: last_with_id_def)

lemma last_with_id_snoc:
  "last_with_id k (rs @ [r]) = (if car_id r = k then Some r else last_with_id k rs)"
  by (simp add: last_with_id_def)

lemma last_with_id_append:
  "last_with_id k (xs @ ys) =
     (case last_with_id k ys of Some y \<Rightarrow> Some y | None \<Rightarrow> last_with_id k xs)"
proof (induction ys rule: rev_induct)
  case Nil
  then show ?case by (simp add: last_with_id_Nil)
next
  case (snoc y ys)
  have "last_with_id k (xs @ ys @ [y]) = last_with_id k ((xs @ ys) @ [y])"
    by simp
  also have "\<dots> = (if car_id y = k then Some y else last_with_id k (xs @ ys))"
    by (rule last_with_id_snoc)
  finally show ?case
    using snoc by (simp add: last_with_id_snoc)
qed

lemma map_of_insert_all:
  "map_of (insert_all rs m) k =
     (case last_with_id k rs of Some x \<Rightarrow> Some x | None \<Rightarrow> map_of m k)"
proof (induction rs rule: rev_induct)
  case Nil
  then show ?case by (simp add: insert_all_def last_with_id_Nil)
next
  case (snoc r rs)
  have "insert_all (rs @ [r]) m = AList.update (car_id r) r (insert_all rs m)"
    by (simp add: insert_all_def)
  then show ?case
    using snoc by (simp add: update_conv' last_with_id_snoc)
qed

lemma set_update_subset: "set (AList.update k v al) \<subseteq> insert (k, v) (set al)"
  by (induction al) auto

lemma keyed_update: "keyed m \<Longrightarrow> keyed (AList.update (car_id r) r m)"
  unfolding keyed_def using set_update_subset [of "car_id r" r m]
  by (auto simp add: distinct_update)

lemma keyed_insert_all: "keyed m \<Longrightarrow> keyed (insert_all rs m)"
proof (induction rs rule: rev_induct)
  case Nil
  then show ?case by (simp add: insert_all_def)
next
  case (snoc r rs)
  have "insert_all (rs @ [r]) m = AList.update (car_id r) r (insert_all rs m)"
    by (simp add: insert_all_def)
  with snoc show ?case
    by (simp add: keyed_update)
qed

lemma keyed_apply_call: "keyed (records r) \<Longrightarrow> keyed (records (apply_call call r))"
  by (cases call) (simp_all add: upsert_def bulkUpsert_def keyed_update keyed_insert_all)

lemma keyed_apply_calls: "keyed (records r) \<Longrightarrow> keyed (records (apply_calls calls r))"
  unfolding apply_calls_def
  by (induction calls arbitrary: r) (simp_all add: keyed_apply_call)

lemma find_apply_call:
  "find_car k (apply_call call r) =
     (case last_with_id k (written [call]) of Some x \<Rightarrow> Some x | None \<Rightarrow> find_car k r)"
proof (cases call)
  case (Upsert c)
  then show ?thesis
    by (simp add: find_car_def upsert_def update_conv' last_with_id_def)
next
  case (BulkUpsert rs)
  then show ?thesis
    by (simp add: find_car_def bulkUpsert_def map_of_insert_all split: option.splits)
qed

lemma written_Cons: "written (call # calls) = written [call] @ written calls"
  by (cases call) simp_all

lemma find_apply_calls:
  "find_car k (apply_calls calls r) =
     (case last_with_id k (written calls) of Some x \<Rightarrow> Some x | None \<Rightarrow> find_car k r)"
proof (induction calls arbitrary: r)
  case Nil
  then show ?case by (simp add: apply_calls_def last_with_id_Nil)
next
  case (Cons call calls)
  have "apply_calls (call # calls) r = apply_calls calls (apply_call call r)"
    by (simp add: apply_calls_def)
  then show ?case
    using Cons [of "apply_call call r"] find_apply_call [of k call r]
    by (subst written_Cons) (simp add: last_with_id_append split: option.splits)
qed

lemma distinct_ids_all_records:
  assumes "keyed (records r)"
  shows "distinct (map car_id (all_records r))"
proof -
  have "\<forall>x \<in> set (records r). (car_id \<circ> snd) x = fst x"
    using assms by (auto simp add: keyed_def)
  then have eq: "map (car_id \<circ> snd) (records r) = map fst (records r)"
    by (intro map_cong) auto
  have "distinct (map fst (records r))"
    using assms by (simp add: keyed_def)
  then have "distinct (map (car_id \<circ> snd) (records r))"
    by (simp only: eq)
  then have "distinct (map car_id (map snd (records r)))"
    by simp
  moreover have "mset (map car_id (all_records r)) = mset (map car_id (map snd (records r)))"
    by (simp add: all_records_def multiset.map_comp)
  ultimately show ?thesis
    by (metis mset_eq_imp_distinct_iff)
qed

lemma new_repository_records:
  assumes "new_repository b d = Inr r0"
  shows "\<exists>loaded. loadCars b d = Inr loaded \<and> records r0 = insert_all loaded []"
  using assms by (auto simp add: new_repository_def reload_def split: sum.splits)

section \<open>Facts about streaming and ingest\<close>


























section \<open>The claims\<close>

subsection \<open>Round trip of serialize and parse\<close>

text \<open>
  C1 (as amended). For every record that satisfies the validator, whose four string
  fields contain no comma, whose status is not empty and whose price is the binary64
  number nearest to a decimal number of six significant digits, \<open>m * 10 powi k\<close> with
  \<open>m\<close> from 100000 to 999999 (so 2500 is \<open>250000 * 10 powi (- 2)\<close>), that is at least
  \<open>DBL_MIN\<close> and below the overflow threshold, \<open>serialize\<close> succeeds and \<open>parse\<close> of the
  line returns the record itself, the price included.
\<close>

theorem roundtrip_nonempty_status:
  assumes "validate r"
    and "CHR '','' \<notin> set (car_id r)" and "CHR '','' \<notin> set (model r)"
    and "CHR '','' \<notin> set (condition r)" and "CHR '','' \<notin> set (status r)"
    and "status r \<noteq> []"
    and "pricePerDay r = Finite (round_binary64 (of_nat m * 10 powi k))"
    and "100000 \<le> m" and "m < 1000000"
    and "DBL_MIN \<le> of_nat m * 10 powi k" and "of_nat m * 10 powi k < overflow_threshold"
  shows "\<exists>line. serialize r = Inr line \<and> parse line = Inr (Some r)"
proof -
  let ?line = "car_id r @ '','' @ model r @ '','' @ condition r @ '',''
                @ show_double (pricePerDay r) @ '','' @ status r"
  have ser: "serialize r = Inr ?line"
    using assms(1) by (simp add: serialize_def)
  have toks: "getline_all CHR '','' ?line =
      [car_id r, model r, condition r, show_double (pricePerDay r), status r]"
    using assms(2-6) show_double_no_comma [of "pricePerDay r"]
    by (simp add: getline_all_field getline_all_last)
  have ne: "?line \<noteq> []"
    using assms(6) by simp
  have price: "stod (show_double (pricePerDay r)) = Inr (pricePerDay r)"
    unfolding assms(7) using assms(8,9) refl assms(10,11)
    by (rule stod_show_double_six_digits)
  have "parse ?line = assemble ?line (car_id r) (model r) (condition r)
      (show_double (pricePerDay r)) (status r)"
    unfolding parse_by_tokens [OF ne] toks by simp
  also have "\<dots> = Inr (Some r)"
    using assms(1) price by (cases r) (simp add: assemble_def)
  finally show ?thesis
    using ser by blast
qed

text \<open>The theorem at the record of the specification's scenario, price 2500.\<close>

theorem roundtrip_nonempty_status_witness:
  "\<exists>line. serialize \<lparr>car_id = ''car-001'', model = ''Horizon'', condition = ''excellent'',
                          pricePerDay = Finite 2500, status = ''Available''\<rparr> = Inr line
     \<and> parse line = Inr (Some \<lparr>car_id = ''car-001'', model = ''Horizon'',
                                  condition = ''excellent'', pricePerDay = Finite 2500,
                                  status = ''Available''\<rparr>)"
  by (rule roundtrip_nonempty_status [where m = 250000 and k = "- 2"])
    (simp_all add: validate_eval round_binary64_examples DBL_MIN_def overflow_threshold_def)

text \<open>
  C1 as stated fails three times. A valid record with an empty status is written with
  a final comma; \<open>getline\<close> drops the empty last field, the four tokens left are read
  in the legacy layout and \<open>stod\<close> rejects the condition text. A price of more than
  six significant digits is printed rounded, here 1234567 as \<^verbatim>\<open>1.23457e+06\<close>, and
  comes back as 1234570. And a subnormal price, here the smallest one, which \<open>parse\<close>
  accepts when it is written \<^verbatim>\<open>0x1p-1074\<close>, is printed as \<^verbatim>\<open>4.94066e-324\<close>, which
  \<open>stod\<close> rejects as out of range.
\<close>

theorem roundtrip_counterexample:
  "validate \<lparr>car_id = ''a'', model = ''b'', condition = ''good'', pricePerDay = Finite 1, status = []\<rparr>
   \<and> CHR '','' \<notin> set (''a'' @ ''b'' @ ''good'' @ [])
   \<and> serialize \<lparr>car_id = ''a'', model = ''b'', condition = ''good'', pricePerDay = Finite 1, status = []\<rparr>
       = Inr ''a,b,good,1,''
   \<and> parse ''a,b,good,1,'' = Inl (invalid_argument ''stod'')
   \<and> validate \<lparr>car_id = ''a'', model = ''b'', condition = ''good'', pricePerDay = Finite 1234567,
                 status = ''Available''\<rparr>
   \<and> CHR '','' \<notin> set (''a'' @ ''b'' @ ''good'' @ ''Available'')
   \<and> serialize \<lparr>car_id = ''a'', model = ''b'', condition = ''good'', pricePerDay = Finite 1234567,
                  status = ''Available''\<rparr>
       = Inr ''a,b,good,1.23457e+06,Available''
   \<and> parse ''a,b,good,1.23457e+06,Available''
       = Inr (Some \<lparr>car_id = ''a'', model = ''b'', condition = ''good'',
                      pricePerDay = Finite 1234570, status = ''Available''\<rparr>)
   \<and> parse ''a,b,good,0x1p-1074,Available''
       = Inr (Some \<lparr>car_id = ''a'', model = ''b'', condition = ''good'',
                      pricePerDay = Finite DBL_TRUE_MIN, status = ''Available''\<rparr>)
   \<and> serialize \<lparr>car_id = ''a'', model = ''b'', condition = ''good'',
                  pricePerDay = Finite DBL_TRUE_MIN, status = ''Available''\<rparr>
       = Inr ''a,b,good,4.94066e-324,Available''
   \<and> parse ''a,b,good,4.94066e-324,Available'' = Inl (out_of_range ''stod'')"
proof -
  have A: "validate \<lparr>car_id = ''a'', model = ''b'', condition = ''good'', pricePerDay = Finite 1, status = []\<rparr>
   \<and> CHR '','' \<notin> set (''a'' @ ''b'' @ ''good'' @ [])
   \<and> serialize \<lparr>car_id = ''a'', model = ''b'', condition = ''good'', pricePerDay = Finite 1, status = []\<rparr>
       = Inr ''a,b,good,1,''
   \<and> parse ''a,b,good,1,'' = Inl (invalid_argument ''stod'')
   \<and> validate \<lparr>car_id = ''a'', model = ''b'', condition = ''good'', pricePerDay = Finite 1234567,
                 status = ''Available''\<rparr>
   \<and> CHR '','' \<notin> set (''a'' @ ''b'' @ ''good'' @ ''Available'')
   \<and> serialize \<lparr>car_id = ''a'', model = ''b'', condition = ''good'', pricePerDay = Finite 1234567,
                  status = ''Available''\<rparr>
       = Inr ''a,b,good,1.23457e+06,Available''
   \<and> parse ''a,b,good,1.23457e+06,Available''
       = Inr (Some \<lparr>car_id = ''a'', model = ''b'', condition = ''good'',
                      pricePerDay = Finite 1234570, status = ''Available''\<rparr>)"
    by (simp add: serialize_def validate_eval show_double_examples parse_def tokens_eval
        stod_examples)
  have v: "validate \<lparr>car_id = ''a'', model = ''b'', condition = ''good'',
                  pricePerDay = Finite DBL_TRUE_MIN, status = ''Available''\<rparr>"
    by (simp add: validate_eval DBL_TRUE_MIN_def)
  have B: "parse ''a,b,good,0x1p-1074,Available''
       = Inr (Some \<lparr>car_id = ''a'', model = ''b'', condition = ''good'',
                      pricePerDay = Finite DBL_TRUE_MIN, status = ''Available''\<rparr>)"
    using v by (simp add: parse_def tokens_eval stod_hex_tiny)
  have C: "serialize \<lparr>car_id = ''a'', model = ''b'', condition = ''good'',
                  pricePerDay = Finite DBL_TRUE_MIN, status = ''Available''\<rparr>
       = Inr ''a,b,good,4.94066e-324,Available''"
    using v by (simp add: serialize_def show_double_tiny)
  have D: "parse ''a,b,good,4.94066e-324,Available'' = Inl (out_of_range ''stod'')"
    by (simp add: parse_def tokens_eval stod_tiny)
  from A B C D show ?thesis
    by (simp only: simp_thms)
qed

subsection \<open>Field assignment of parse\<close>

text \<open>
  C7 (as amended). For every non-empty line the fields that \<open>parse\<close> works on are the
  comma-separated fields with a final empty field dropped. With fewer than four of them
  \<open>parse\<close> fails with MalformedRecord; with exactly four they are read as
  model, condition, price, status and the first is also the id; with five or more the
  first five are id, model, condition, price, status.
\<close>

theorem dual_layout_tokens:
  assumes "line \<noteq> []"
    and "toks = drop_last_empty (split_on CHR '','' line)"
  shows "getline_all CHR '','' line = toks
    \<and> (length toks < 4 \<longrightarrow> parse line = Inl (MalformedRecord line))
    \<and> (length toks = 4 \<longrightarrow>
          parse line = assemble line (toks ! 0) (toks ! 0) (toks ! 1) (toks ! 2) (toks ! 3))
    \<and> (5 \<le> length toks \<longrightarrow>
          parse line = assemble line (toks ! 0) (toks ! 1) (toks ! 2) (toks ! 3) (toks ! 4))"
proof -
  have "getline_all CHR '','' line = toks"
    using assms(2) by (simp add: getline_all_split_on)
  then show ?thesis
    using parse_by_tokens [OF assms(1)] by (auto simp add: Let_def)
qed

text \<open>The theorem at a line of three, of four and of five fields.\<close>

theorem dual_layout_tokens_witness:
  "parse ''Horizon,good,2500'' = Inl (MalformedRecord ''Horizon,good,2500'')
   \<and> parse ''Horizon,good,2500,Rented''
       = Inr (Some \<lparr>car_id = ''Horizon'', model = ''Horizon'', condition = ''good'',
                      pricePerDay = Finite 2500, status = ''Rented''\<rparr>)
   \<and> parse ''car-001,Horizon,excellent,2500,Available''
       = Inr (Some \<lparr>car_id = ''car-001'', model = ''Horizon'', condition = ''excellent'',
                      pricePerDay = Finite 2500, status = ''Available''\<rparr>)"
proof -
  have t3: "drop_last_empty (split_on CHR '','' ''Horizon,good,2500'')
      = [''Horizon'', ''good'', ''2500'']"
    and t4: "drop_last_empty (split_on CHR '','' ''Horizon,good,2500,Rented'')
      = [''Horizon'', ''good'', ''2500'', ''Rented'']"
    and t5: "drop_last_empty (split_on CHR '','' ''car-001,Horizon,excellent,2500,Available'')
      = [''car-001'', ''Horizon'', ''excellent'', ''2500'', ''Available'']"
    by (simp_all add: drop_last_empty_def)
  show ?thesis
    using dual_layout_tokens [of "''Horizon,good,2500''", OF _ t3 [symmetric]]
      dual_layout_tokens [of "''Horizon,good,2500,Rented''", OF _ t4 [symmetric]]
      dual_layout_tokens [of "''car-001,Horizon,excellent,2500,Available''", OF _ t5 [symmetric]]
    by (simp add: assemble_def stod_examples validate_eval)
qed

text \<open>
  C7 as stated fails on a line that ends in a comma: splitting it on commas gives five
  fields, the last one empty, and mapped by position they make a valid record; \<open>parse\<close>
  sees four tokens, reads them in the legacy layout and fails in \<open>stod\<close>.
\<close>

theorem dual_layout_counterexample:
  "split_on CHR '','' ''a,b,good,1,'' = [''a'', ''b'', ''good'', ''1'', []]
   \<and> assemble ''a,b,good,1,'' ''a'' ''b'' ''good'' ''1'' []
       = Inr (Some \<lparr>car_id = ''a'', model = ''b'', condition = ''good'',
                      pricePerDay = Finite 1, status = []\<rparr>)
   \<and> parse ''a,b,good,1,'' = Inl (invalid_argument ''stod'')"
  by (simp add: assemble_def stod_examples validate_eval parse_def tokens_eval)

subsection \<open>Errors of the price field, and validity of what parse returns\<close>

text \<open>
  C8 (as amended). For every line of at least four tokens, \<open>parse\<close> fails with the
  \<^verbatim>\<open>std::invalid_argument\<close> of \<open>stod\<close> (InvalidNumber) exactly when the price-position
  token has no numeric prefix, that is, when after white space and a sign there is
  neither a digit, nor a point with a digit, nor \<^verbatim>\<open>inf\<close> or \<^verbatim>\<open>nan\<close>. And a record that
  \<open>parse\<close> returns satisfies the validator: id and model are not empty, the condition
  is one of the five allowed, the price is finite and positive.
\<close>

theorem price_errors:
  "(line \<noteq> [] \<and> 4 \<le> length (getline_all CHR '','' line)
      \<longrightarrow> (parse line = Inl (invalid_argument ''stod'')
             \<longleftrightarrow> no_numeric_prefix (price_field (getline_all CHR '','' line))))
   \<and> (parse line = Inr (Some r)
      \<longrightarrow> validate r \<and> car_id r \<noteq> [] \<and> model r \<noteq> [] \<and> condition r \<in> set allowed
          \<and> (\<exists>q. pricePerDay r = Finite q \<and> 0 < q))"
proof
  show "line \<noteq> [] \<and> 4 \<le> length (getline_all CHR '','' line)
      \<longrightarrow> (parse line = Inl (invalid_argument ''stod'')
             \<longleftrightarrow> no_numeric_prefix (price_field (getline_all CHR '','' line)))"
  proof
    assume a: "line \<noteq> [] \<and> 4 \<le> length (getline_all CHR '','' line)"
    let ?tok = "price_field (getline_all CHR '','' line)"
    have "parse line = Inl (invalid_argument ''stod'')
        \<longleftrightarrow> stod ?tok = Inl (invalid_argument ''stod'')"
      using a by (auto simp add: parse_def Let_def price_field_def split: sum.splits)
    then show "parse line = Inl (invalid_argument ''stod'') \<longleftrightarrow> no_numeric_prefix ?tok"
      by (simp only: stod_no_prefix_iff)
  qed
next
  show "parse line = Inr (Some r)
      \<longrightarrow> validate r \<and> car_id r \<noteq> [] \<and> model r \<noteq> [] \<and> condition r \<in> set allowed
          \<and> (\<exists>q. pricePerDay r = Finite q \<and> 0 < q)"
  proof
    assume p: "parse line = Inr (Some r)"
    then have v: "validate r"
      by (auto simp add: parse_def Let_def split: if_splits sum.splits)
    then show "validate r \<and> car_id r \<noteq> [] \<and> model r \<noteq> [] \<and> condition r \<in> set allowed
          \<and> (\<exists>q. pricePerDay r = Finite q \<and> 0 < q)"
      by (cases "pricePerDay r")
        (auto simp add: validate_def isfinite_def le_zero_def split: if_splits)
  qed
qed

text \<open>
  The theorem at a line whose price is \<^verbatim>\<open>abc\<close>, which has no numeric prefix and is
  rejected, and at the scenario line.
\<close>

theorem price_errors_witness:
  "parse ''a,b,good,abc,Available'' = Inl (invalid_argument ''stod'')
   \<and> validate \<lparr>car_id = ''car-001'', model = ''Horizon'', condition = ''excellent'',
                 pricePerDay = Finite 2500, status = ''Available''\<rparr>"
proof -
  have h1: "''a,b,good,abc,Available'' \<noteq> []
      \<and> 4 \<le> length (getline_all CHR '','' ''a,b,good,abc,Available'')"
    and h1': "no_numeric_prefix (price_field (getline_all CHR '','' ''a,b,good,abc,Available''))"
    by (simp_all add: tokens_eval price_field_def no_numeric_prefix_def skip_sign_def isspace_def
        starts_with_ci_def lower_eq_def isdigit_def)
  have h2: "parse ''car-001,Horizon,excellent,2500,Available''
      = Inr (Some \<lparr>car_id = ''car-001'', model = ''Horizon'', condition = ''excellent'',
                     pricePerDay = Finite 2500, status = ''Available''\<rparr>)"
    by (simp add: parse_def tokens_eval stod_examples validate_eval)
  show ?thesis
    using price_errors [of "''a,b,good,abc,Available''"] h1 h1'
      price_errors [of "''car-001,Horizon,excellent,2500,Available''"
        "\<lparr>car_id = ''car-001'', model = ''Horizon'', condition = ''excellent'',
           pricePerDay = Finite 2500, status = ''Available''\<rparr>"] h2
    by blast
qed

text \<open>
  C8 as stated fails: \<^verbatim>\<open>12abc\<close> is not a decimal number, yet \<open>stod\<close> reads its prefix
  and ignores the rest, so the line is accepted with the price 12.
\<close>

theorem price_errors_counterexample:
  "price_field (getline_all CHR '','' ''a,b,good,12abc,Available'') = ''12abc''
   \<and> \<not> is_decimal_number ''12abc''
   \<and> parse ''a,b,good,12abc,Available''
       = Inr (Some \<lparr>car_id = ''a'', model = ''b'', condition = ''good'',
                      pricePerDay = Finite 12, status = ''Available''\<rparr>)"
  by (simp add: price_field_def tokens_eval is_decimal_number_def scan_mantissa_def isdigit_def
      lower_eq_def parse_def stod_examples validate_eval)

subsection \<open>The status that parse assigns\<close>



subsection \<open>A line that ends in a comma\<close>

text \<open>
  C10. For every line of five fields whose last field is empty, that is four comma-free
  texts each followed by a comma, \<open>getline\<close> delivers the four texts only, and \<open>parse\<close>
  reads them in the legacy layout: the first is the id and the model, the second the
  condition, the price is read from the third, and the status is the fourth; no record
  with the empty fifth field or a default as its status is made.
\<close>

theorem trailing_comma_legacy:
  assumes "CHR '','' \<notin> set a" and "CHR '','' \<notin> set b" and "CHR '','' \<notin> set c"
    and "CHR '','' \<notin> set d"
    and "line = a @ '','' @ b @ '','' @ c @ '','' @ d @ '',''"
  shows "length (split_on CHR '','' line) = 5 \<and> last (split_on CHR '','' line) = []
    \<and> getline_all CHR '','' line = [a, b, c, d]
    \<and> parse line = assemble line a a b c d
    \<and> (\<forall>r. parse line = Inr (Some r) \<longrightarrow>
          car_id r = a \<and> model r = a \<and> condition r = b \<and> stod c = Inr (pricePerDay r)
          \<and> status r = d)"
proof -
  have toks: "getline_all CHR '','' line = [a, b, c, d]"
    using assms by (simp add: getline_all_field getline_all_Nil)
  have ne: "line \<noteq> []"
    using assms(5) by simp
  have p: "parse line = assemble line a a b c d"
    unfolding parse_by_tokens [OF ne] toks by simp
  have sp: "split_on CHR '','' line = [a, b, c, d, []]"
    using assms by (simp add: split_on_field)
  have "\<forall>r. assemble line a a b c d = Inr (Some r) \<longrightarrow>
          car_id r = a \<and> model r = a \<and> condition r = b \<and> stod c = Inr (pricePerDay r)
          \<and> status r = d"
    by (auto simp add: assemble_def split: sum.splits if_splits)
  with toks p sp show ?thesis
    by simp
qed

text \<open>The theorem at the line of the claim.\<close>

theorem trailing_comma_legacy_witness:
  "getline_all CHR '','' ''id,model,condition,price,'' = [''id'', ''model'', ''condition'', ''price'']
   \<and> parse ''id,model,condition,price,'' = Inl (invalid_argument ''stod'')
   \<and> parse ''a,good,1,x,''
       = Inr (Some \<lparr>car_id = ''a'', model = ''a'', condition = ''good'',
                      pricePerDay = Finite 1, status = ''x''\<rparr>)"
proof -
  have t1: "getline_all CHR '','' ''id,model,condition,price,''
        = [''id'', ''model'', ''condition'', ''price'']
      \<and> parse ''id,model,condition,price,''
        = assemble ''id,model,condition,price,'' ''id'' ''id'' ''model'' ''condition'' ''price''"
    using trailing_comma_legacy [of "''id''" "''model''" "''condition''" "''price''"
        "''id,model,condition,price,''"]
    by simp
  have t2: "parse ''a,good,1,x,'' = assemble ''a,good,1,x,'' ''a'' ''a'' ''good'' ''1'' ''x''"
    using trailing_comma_legacy [of "''a''" "''good''" "''1''" "''x''" "''a,good,1,x,''"]
    by simp
  have "assemble ''id,model,condition,price,'' ''id'' ''id'' ''model'' ''condition'' ''price''
      = Inl (invalid_argument ''stod'')"
    by (simp add: assemble_def stod_examples)
  moreover have "assemble ''a,good,1,x,'' ''a'' ''a'' ''good'' ''1'' ''x''
      = Inr (Some \<lparr>car_id = ''a'', model = ''a'', condition = ''good'',
                     pricePerDay = Finite 1, status = ''x''\<rparr>)"
    by (simp add: assemble_def stod_examples validate_eval)
  ultimately show ?thesis
    using t1 t2 by simp
qed

subsection \<open>The repository: one record per id, the last write wins\<close>

text \<open>
  C5. For a repository constructed over any backend and any sequence of \<open>upsert\<close> and
  \<open>bulkUpsert\<close> calls on it, \<open>find\<close> of an id returns the last record with that id
  among those loaded by the constructor followed by those written by the calls, and
  nothing when there is none; the map never has a key twice, and the snapshot never
  has two records with the same id.
\<close>

theorem last_write_wins:
  assumes "new_repository b d = Inr r0"
    and "loadCars b d = Inr loaded"
  shows "find_car k (apply_calls calls r0) = last_with_id k (loaded @ written calls)
    \<and> (last_with_id k (loaded @ written calls) =
         (case last_with_id k (written calls) of
            Some x \<Rightarrow> Some x
          | None \<Rightarrow> last_with_id k loaded))
    \<and> (k \<notin> car_id ` set loaded \<and> k \<notin> car_id ` set (written calls)
         \<longrightarrow> find_car k (apply_calls calls r0) = None)
    \<and> distinct (map fst (records (apply_calls calls r0)))
    \<and> distinct (map car_id (all_records (apply_calls calls r0)))"
proof -
  have r0: "records r0 = insert_all loaded []"
    using new_repository_records [OF assms(1)] assms(2) by simp
  then have f0: "find_car k r0 = last_with_id k loaded"
    by (simp add: find_car_def map_of_insert_all split: option.splits)
  have app: "last_with_id k (loaded @ written calls) =
         (case last_with_id k (written calls) of
            Some x \<Rightarrow> Some x
          | None \<Rightarrow> last_with_id k loaded)"
    by (rule last_with_id_append)
  have f: "find_car k (apply_calls calls r0) = last_with_id k (loaded @ written calls)"
    using find_apply_calls [of k calls r0] f0 app by (simp split: option.splits)
  have none: "k \<notin> car_id ` set loaded \<and> k \<notin> car_id ` set (written calls)
         \<longrightarrow> last_with_id k (loaded @ written calls) = None"
    by (auto simp add: last_with_id_def filter_empty_conv)
  have "keyed (records r0)"
    unfolding r0 by (rule keyed_insert_all) (simp add: keyed_def)
  then have k: "keyed (records (apply_calls calls r0))"
    by (rule keyed_apply_calls)
  then have "distinct (map fst (records (apply_calls calls r0)))"
    by (simp add: keyed_def)
  with f app none k show ?thesis
    by (simp add: distinct_ids_all_records)
qed

text \<open>
  The theorem at a memory-backed repository seeded with one car, after an \<open>upsert\<close> and
  a \<open>bulkUpsert\<close> that writes the same id again.
\<close>

theorem last_write_wins_witness:
  "find_car ''c2''
     (apply_calls
        [Upsert \<lparr>car_id = ''c2'', model = ''Atlas'', condition = ''good'',
                  pricePerDay = Finite 1, status = ''Available''\<rparr>,
         BulkUpsert [\<lparr>car_id = ''c3'', model = ''Nimbus'', condition = ''fair'',
                        pricePerDay = Finite 1, status = ''Available''\<rparr>,
                     \<lparr>car_id = ''c2'', model = ''Falcon'', condition = ''good'',
                        pricePerDay = Finite 2500, status = ''Rented''\<rparr>]]
        \<lparr>backend = MemoryStorageBackend
                      [\<lparr>car_id = ''c1'', model = ''Vertex'', condition = ''good'',
                          pricePerDay = Finite 1, status = ''Available''\<rparr>],
           records = [(''c1'', \<lparr>car_id = ''c1'', model = ''Vertex'', condition = ''good'',
                                  pricePerDay = Finite 1, status = ''Available''\<rparr>)],
           dirty = False\<rparr>)
   = Some \<lparr>car_id = ''c2'', model = ''Falcon'', condition = ''good'',
            pricePerDay = Finite 2500, status = ''Rented''\<rparr>"
proof -
  have n: "new_repository
      (MemoryStorageBackend
         [\<lparr>car_id = ''c1'', model = ''Vertex'', condition = ''good'',
             pricePerDay = Finite 1, status = ''Available''\<rparr>]) (\<lambda>p. None)
    = Inr \<lparr>backend = MemoryStorageBackend
                      [\<lparr>car_id = ''c1'', model = ''Vertex'', condition = ''good'',
                          pricePerDay = Finite 1, status = ''Available''\<rparr>],
           records = [(''c1'', \<lparr>car_id = ''c1'', model = ''Vertex'', condition = ''good'',
                                  pricePerDay = Finite 1, status = ''Available''\<rparr>)],
           dirty = False\<rparr>"
    by (simp add: new_repository_def reload_def insert_all_def)
  have l: "loadCars
      (MemoryStorageBackend
         [\<lparr>car_id = ''c1'', model = ''Vertex'', condition = ''good'',
             pricePerDay = Finite 1, status = ''Available''\<rparr>]) (\<lambda>p. None)
    = Inr [\<lparr>car_id = ''c1'', model = ''Vertex'', condition = ''good'',
             pricePerDay = Finite 1, status = ''Available''\<rparr>]"
    by simp
  show ?thesis
    using last_write_wins [OF n l, of "''c2''"]
    by (simp add: last_with_id_def)
qed

subsection \<open>Flush and the dirty flag\<close>




subsection \<open>The transactional write\<close>

text \<open>
  C2, evaluated where it fails, with an environment that refuses nothing. The target
  \<^verbatim>\<open>cars.txt\<close> holds a complete old content. Cut off after two steps (the temporary
  file is written and closed) the target still has it. Cut off after three, which is
  after \<^verbatim>\<open>fs::remove(target)\<close> and before \<^verbatim>\<open>fs::rename\<close>, there is no target at all:
  the old content is lost and the new one is only in \<^verbatim>\<open>cars.txt.tmp\<close>. Only the
  complete run leaves the new content.
\<close>

theorem write_interrupted_after_remove:
  "(case write_interrupted no_faults 2 ''cars.txt'' [''new'']
           ((\<lambda>p. None)(''cars.txt'' \<mapsto> File ''old''))
    of Inl e \<Rightarrow> False
     | Inr d \<Rightarrow> d ''cars.txt'' = Some (File ''old'')
         \<and> d ''cars.txt.tmp'' = Some (File (''new'' @ [CHR 0x0A])))
   \<and> (case write_interrupted no_faults 3 ''cars.txt'' [''new'']
             ((\<lambda>p. None)(''cars.txt'' \<mapsto> File ''old''))
    of Inl e \<Rightarrow> False
     | Inr d \<Rightarrow> d ''cars.txt'' = None
         \<and> d ''cars.txt.tmp'' = Some (File (''new'' @ [CHR 0x0A])))
   \<and> (case writer_write no_faults ''cars.txt'' [''new'']
             ((\<lambda>p. None)(''cars.txt'' \<mapsto> File ''old''))
    of Inl e \<Rightarrow> False
     | Inr d \<Rightarrow> d ''cars.txt'' = Some (File (''new'' @ [CHR 0x0A]))
         \<and> d ''cars.txt.tmp'' = None)"
  by (simp add: write_interrupted_def writer_write_def write_steps_def tmpPath_def file_text_def
      no_faults_def is_directory_def)

subsection \<open>Streaming skips the lines that do not parse\<close>




subsection \<open>Chunk accounting of ingest\<close>




end
